theory Spec2Isabelle
  imports Main
begin

section \<open>Data model of \<open>docs/auth_system.py\<close>\<close>

text \<open>
  The module keeps all of its state in four SQLite tables (\<open>_ensure_auth_db\<close>). A table
  is modelled as the list of its rows in rowid order, a row as a record with one field per
  column. Column names are kept; where two tables share a column name the field carries the
  table's initial as a suffix (\<open>id_u\<close>, \<open>is_active_s\<close>, ...).

  A \<open>datetime\<close> is the number of microseconds on Python's naive local time line, so that
  \<open>datetime.fromisoformat (d.isoformat ())\<close> is \<open>d\<close> and comparison is comparison of
  integers. SQLite's \<open>CURRENT_TIMESTAMP\<close> is a different clock and an input of its own.
  A nullable column is an \<open>option\<close>.
\<close>

type_synonym datetime = int
type_synonym sql_timestamp = int

text \<open>Python's \<open>float\<close>; it is only stored, never computed with.\<close>
typedecl pyfloat

record user =
  id_u :: nat
  username :: string
  email :: string
  password_hash :: string
  salt :: string
  role :: string
  is_active_u :: bool
  created_at_u :: sql_timestamp
  last_login :: "sql_timestamp option"
  failed_login_attempts :: int
  locked_until :: "datetime option"

record session =
  id_s :: nat
  user_id_s :: nat
  session_token :: string
  created_at_s :: sql_timestamp
  expires_at :: datetime
  is_active_s :: bool
  ip_address :: string
  user_agent :: string

record query_entry =
  id_q :: nat
  user_id_q :: nat
  natural_query :: string
  generated_sql :: string
  execution_time :: "pyfloat option"
  result_count :: "int option"
  status :: string
  error_message :: "string option"
  created_at_q :: sql_timestamp

record preference =
  user_id_p :: nat
  theme :: string
  default_limit :: int
  favorite_queries :: string
  dashboard_layout :: string
  notification_settings :: string

record store =
  users :: "user list"
  sessions :: "session list"
  query_history :: "query_entry list"
  user_preferences :: "preference list"

text \<open>The tables right after \<open>CREATE TABLE IF NOT EXISTS\<close> on a new database file.\<close>

definition empty_store :: store where
  "empty_store = \<lparr>users = [], sessions = [], query_history = [], user_preferences = []\<rparr>"

text \<open>
  \<open>INTEGER PRIMARY KEY AUTOINCREMENT\<close>: the new rowid is one more than the largest rowid
  the table has ever held. No statement of the module deletes a row, so that is the largest
  rowid present (and 1 on an empty table).
\<close>

definition next_id :: "nat list \<Rightarrow> nat" where
  "next_id ids = fold max ids 0 + 1"

text \<open>\<open>timedelta (minutes = n)\<close> and \<open>timedelta (hours = n)\<close> in microseconds.\<close>

definition timedelta_minutes :: "int \<Rightarrow> int" where
  "timedelta_minutes n = n * 60000000"

definition timedelta_hours :: "int \<Rightarrow> int" where
  "timedelta_hours n = n * 3600000000"

definition session_timeout :: int where
  "session_timeout = timedelta_hours 8"

subsection \<open>Roles and permissions\<close>

text \<open>\<open>UserRole\<close> and \<open>Permission\<close> are classes of string constants.\<close>

definition ADMIN :: string where "ADMIN = ''admin''"
definition ANALYST :: string where "ANALYST = ''analyst''"
definition VIEWER :: string where "VIEWER = ''viewer''"
definition GUEST :: string where "GUEST = ''guest''"

definition READ_DATA :: string where "READ_DATA = ''read_data''"
definition WRITE_DATA :: string where "WRITE_DATA = ''write_data''"
definition DELETE_DATA :: string where "DELETE_DATA = ''delete_data''"
definition MANAGE_USERS :: string where "MANAGE_USERS = ''manage_users''"
definition VIEW_ANALYTICS :: string where "VIEW_ANALYTICS = ''view_analytics''"
definition EXPORT_DATA :: string where "EXPORT_DATA = ''export_data''"
definition CREATE_DASHBOARDS :: string where "CREATE_DASHBOARDS = ''create_dashboards''"
definition MANAGE_SCHEMAS :: string where "MANAGE_SCHEMAS = ''manage_schemas''"
definition VIEW_QUERY_HISTORY :: string where "VIEW_QUERY_HISTORY = ''view_query_history''"
definition SHARE_QUERIES :: string where "SHARE_QUERIES = ''share_queries''"

text \<open>The dict \<open>ROLE_PERMISSIONS\<close>, as the association list of its four entries.\<close>

definition ROLE_PERMISSIONS :: "(string \<times> string list) list" where
  "ROLE_PERMISSIONS =
    [(ADMIN,
        [READ_DATA, WRITE_DATA, DELETE_DATA,
         MANAGE_USERS, VIEW_ANALYTICS, EXPORT_DATA,
         CREATE_DASHBOARDS, MANAGE_SCHEMAS,
         VIEW_QUERY_HISTORY, SHARE_QUERIES]),
     (ANALYST,
        [READ_DATA, WRITE_DATA, VIEW_ANALYTICS,
         EXPORT_DATA, CREATE_DASHBOARDS,
         VIEW_QUERY_HISTORY, SHARE_QUERIES]),
     (VIEWER,
        [READ_DATA, VIEW_ANALYTICS, EXPORT_DATA,
         VIEW_QUERY_HISTORY]),
     (GUEST,
        [READ_DATA])]"

text \<open>\<open>ROLE_PERMISSIONS.get (role, [])\<close>, the lookup both \<open>authenticate\<close> and
  \<open>validate_session\<close> put into the dict they return.\<close>

definition permissionsFor :: "string \<Rightarrow> string list" where
  "permissionsFor r = (case map_of ROLE_PERMISSIONS r of None \<Rightarrow> [] | Some ps \<Rightarrow> ps)"

subsection \<open>What a caller sees\<close>

text \<open>
  The dict returned by \<open>authenticate\<close> and \<open>validate_session\<close>; only the former has the
  key \<open>session_token\<close>.
\<close>

record user_info =
  ui_user_id :: nat
  ui_username :: string
  ui_email :: string
  ui_role :: string
  ui_session_token :: "string option"
  ui_permissions :: "string list"

text \<open>
  The module raises no exception class of its own. A caller of \<open>authenticate\<close> sees the
  returned value (\<open>None\<close> on every denial) and the messages the call has shown with
  \<open>st.error\<close>, in order. The three denials differ in the messages only.
\<close>

type_synonym auth_result = "user_info option \<times> string list"

definition InvalidCredentials :: auth_result where
  "InvalidCredentials = (None, [])"

definition AccountLocked :: auth_result where
  "AccountLocked =
     (None, [''Account is temporarily locked due to multiple failed login attempts''])"

definition AccountDeactivated :: auth_result where
  "AccountDeactivated = (None, [''Account is deactivated''])"

text \<open>\<open>create_user\<close> returns \<open>False\<close> without a message when the name or address is taken.\<close>

definition DuplicateAccount :: "bool \<times> string list" where
  "DuplicateAccount = (False, [])"

section \<open>Operations of \<open>AuthSystem\<close>\<close>

text \<open>
  Every operation takes the store and returns the store it leaves behind. What the source
  draws from outside is an argument: the key-derivation function \<open>_hash_password\<close>
  (PBKDF2-HMAC-SHA256, any function of password and salt here), the values of
  \<open>secrets.token_hex\<close> and \<open>secrets.token_urlsafe\<close>, and the clock readings.
  Failures of the database file itself (I/O, locking) are outside the model; violations of
  the schema's constraints, which depend on the rows only, are branches of it. A
  transaction that raises before \<open>commit\<close> leaves the store as it was.
\<close>

subsection \<open>\<open>create_user\<close>\<close>

definition new_user ::
  "nat \<Rightarrow> string \<Rightarrow> string \<Rightarrow> string \<Rightarrow> string \<Rightarrow> string \<Rightarrow> sql_timestamp \<Rightarrow> user" where
  "new_user i name mail pwhash slt rl ts =
     \<lparr>id_u = i, username = name, email = mail, password_hash = pwhash, salt = slt,
      role = rl, is_active_u = True, created_at_u = ts, last_login = None,
      failed_login_attempts = 0, locked_until = None\<rparr>"

definition default_preferences :: "nat \<Rightarrow> preference" where
  "default_preferences i =
     \<lparr>user_id_p = i, theme = ''light'', default_limit = 100, favorite_queries = ''[]'',
      dashboard_layout = ''{}'', notification_settings = ''{}''\<rparr>"

definition create_user ::
  "(string \<Rightarrow> string \<Rightarrow> string) \<Rightarrow> store \<Rightarrow> string \<Rightarrow> string \<Rightarrow> string \<Rightarrow> string \<Rightarrow>
     string \<Rightarrow> sql_timestamp \<Rightarrow> store \<times> bool \<times> string list" where
  "create_user hash_password s name mail password rl slt ts =
     (if \<exists>u \<in> set (users s). username u = name \<or> email u = mail
      then (s, False, [])
      else
        let pwhash = hash_password password slt;
            user_id = next_id (map id_u (users s))
        in if user_id \<in> set (map user_id_p (user_preferences s))
           then (s, False,
                 [''Error creating user: UNIQUE constraint failed: user_preferences.user_id''])
           else (s\<lparr>users := users s @ [new_user user_id name mail pwhash slt rl ts],
                    user_preferences := user_preferences s @ [default_preferences user_id]\<rparr>,
                 True, []))"

subsection \<open>\<open>authenticate\<close>\<close>

text \<open>
  \<open>SELECT ... FROM users WHERE username = ? OR email = ?\<close> with the identifier bound to
  both parameters, then \<open>fetchone\<close>. Both columns are \<open>UNIQUE\<close>, so each has an
  index, and SQLite answers the \<open>OR\<close> index by index: the rows whose username is the
  identifier first, then the rows whose email is the identifier and that it has not
  returned yet. \<open>fetchone\<close> takes the first row of that result. Where one account's
  username is another account's email, the account with that username is found,
  whichever was created first.
\<close>

definition select_users :: "store \<Rightarrow> string \<Rightarrow> user list" where
  "select_users s ident =
     filter (\<lambda>u. username u = ident) (users s) @
     filter (\<lambda>u. email u = ident \<and> username u \<noteq> ident) (users s)"

definition find_user :: "store \<Rightarrow> string \<Rightarrow> user option" where
  "find_user s ident = (case select_users s ident of [] \<Rightarrow> None | u # _ \<Rightarrow> Some u)"

text \<open>\<open>locked_until and datetime.fromisoformat (locked_until) > datetime.now ()\<close>\<close>

definition is_locked :: "user \<Rightarrow> datetime \<Rightarrow> bool" where
  "is_locked u now = (case locked_until u of None \<Rightarrow> False | Some l \<Rightarrow> l > now)"

text \<open>\<open>UPDATE users SET failed_login_attempts = ?, locked_until = ? WHERE id = ?\<close>\<close>

definition record_failure :: "nat \<Rightarrow> int \<Rightarrow> datetime option \<Rightarrow> user \<Rightarrow> user" where
  "record_failure i n l r =
     (if id_u r = i then r\<lparr>failed_login_attempts := n, locked_until := l\<rparr> else r)"

text \<open>\<open>UPDATE users SET failed_login_attempts = 0, locked_until = NULL,
  last_login = CURRENT_TIMESTAMP WHERE id = ?\<close>\<close>

definition record_success :: "nat \<Rightarrow> sql_timestamp \<Rightarrow> user \<Rightarrow> user" where
  "record_success i ts r =
     (if id_u r = i
      then r\<lparr>failed_login_attempts := 0, locked_until := None, last_login := Some ts\<rparr>
      else r)"

definition new_session :: "nat \<Rightarrow> nat \<Rightarrow> string \<Rightarrow> sql_timestamp \<Rightarrow> datetime \<Rightarrow> session" where
  "new_session i uid tok ts exp =
     \<lparr>id_s = i, user_id_s = uid, session_token = tok, created_at_s = ts, expires_at = exp,
      is_active_s = True, ip_address = ''127.0.0.1'', user_agent = ''Streamlit''\<rparr>"

text \<open>
  \<open>now_check\<close> is the clock reading of the lock test, \<open>now_write\<close> the later reading that
  the lock time or the session expiry is computed from, \<open>ts\<close> is \<open>CURRENT_TIMESTAMP\<close> and
  \<open>tok\<close> the value of \<open>_generate_session_token\<close>. A token that some session already
  carries violates \<open>session_token TEXT UNIQUE\<close>: the \<open>INSERT\<close> raises, the handler shows
  the error and returns \<open>None\<close>, and the uncommitted reset of the counter is lost.
\<close>

definition authenticate ::
  "(string \<Rightarrow> string \<Rightarrow> string) \<Rightarrow> store \<Rightarrow> string \<Rightarrow> string \<Rightarrow> datetime \<Rightarrow> datetime \<Rightarrow>
     sql_timestamp \<Rightarrow> string \<Rightarrow> store \<times> auth_result" where
  "authenticate hash_password s ident password now_check now_write ts tok =
     (case find_user s ident of
        None \<Rightarrow> (s, None, [])
      | Some u \<Rightarrow>
          if is_locked u now_check
          then (s, None,
                [''Account is temporarily locked due to multiple failed login attempts''])
          else if \<not> is_active_u u
          then (s, None, [''Account is deactivated''])
          else if hash_password password (salt u) \<noteq> password_hash u
          then
            let failed_attempts = failed_login_attempts u + 1;
                lock_time = (if failed_attempts \<ge> 5
                             then Some (now_write + timedelta_minutes 30) else None)
            in (s\<lparr>users := map (record_failure (id_u u) failed_attempts lock_time) (users s)\<rparr>,
                None, [])
          else if tok \<in> set (map session_token (sessions s))
          then (s, None,
                [''Authentication error: UNIQUE constraint failed: sessions.session_token''])
          else
            (s\<lparr>users := map (record_success (id_u u) ts) (users s),
               sessions := sessions s @
                 [new_session (next_id (map id_s (sessions s))) (id_u u) tok ts
                    (now_write + session_timeout)]\<rparr>,
             Some \<lparr>ui_user_id = id_u u, ui_username = username u, ui_email = email u,
                   ui_role = role u, ui_session_token = Some tok,
                   ui_permissions = permissionsFor (role u)\<rparr>,
             []))"

subsection \<open>\<open>validate_session\<close>, \<open>logout\<close>\<close>

text \<open>
  \<open>SELECT ... FROM sessions s JOIN users u ON s.user_id = u.id
  WHERE s.session_token = ? AND s.is_active = TRUE\<close>, then \<open>fetchone\<close>.
\<close>

definition select_session :: "store \<Rightarrow> string \<Rightarrow> (session \<times> user) option" where
  "select_session s tok =
     (case concat (map (\<lambda>x. map (Pair x) (filter (\<lambda>u. user_id_s x = id_u u) (users s)))
                    (filter (\<lambda>x. session_token x = tok \<and> is_active_s x) (sessions s))) of
        [] \<Rightarrow> None
      | r # _ \<Rightarrow> Some r)"

text \<open>\<open>UPDATE sessions SET is_active = FALSE WHERE session_token = ?\<close>\<close>

definition invalidate_token :: "string \<Rightarrow> session \<Rightarrow> session" where
  "invalidate_token tok x = (if session_token x = tok then x\<lparr>is_active_s := False\<rparr> else x)"

definition validate_session :: "store \<Rightarrow> string \<Rightarrow> datetime \<Rightarrow> store \<times> user_info option" where
  "validate_session s tok now =
     (if tok = [] then (s, None)
      else case select_session s tok of
        None \<Rightarrow> (s, None)
      | Some (x, u) \<Rightarrow>
          if expires_at x < now
          then (s\<lparr>sessions := map (invalidate_token tok) (sessions s)\<rparr>, None)
          else if \<not> is_active_u u then (s, None)
          else (s, Some \<lparr>ui_user_id = user_id_s x, ui_username = username u,
                         ui_email = email u, ui_role = role u, ui_session_token = None,
                         ui_permissions = permissionsFor (role u)\<rparr>))"

definition logout :: "store \<Rightarrow> string \<Rightarrow> store" where
  "logout s tok = s\<lparr>sessions := map (invalidate_token tok) (sessions s)\<rparr>"

subsection \<open>\<open>has_permission\<close>, \<open>update_user_role\<close>, \<open>deactivate_user\<close>, \<open>log_query\<close>\<close>

definition has_permission :: "user_info \<Rightarrow> string \<Rightarrow> bool" where
  "has_permission info p = (p \<in> set (ui_permissions info))"

text \<open>\<open>UPDATE users SET role = ? WHERE id = ?\<close>\<close>

definition set_role :: "nat \<Rightarrow> string \<Rightarrow> user \<Rightarrow> user" where
  "set_role uid new_role r = (if id_u r = uid then r\<lparr>role := new_role\<rparr> else r)"

definition update_user_role :: "store \<Rightarrow> nat \<Rightarrow> string \<Rightarrow> store \<times> bool" where
  "update_user_role s uid new_role = (s\<lparr>users := map (set_role uid new_role) (users s)\<rparr>, True)"

text \<open>\<open>UPDATE users SET is_active = FALSE WHERE id = ?\<close> and
  \<open>UPDATE sessions SET is_active = FALSE WHERE user_id = ?\<close>\<close>

definition deactivate_row :: "nat \<Rightarrow> user \<Rightarrow> user" where
  "deactivate_row uid r = (if id_u r = uid then r\<lparr>is_active_u := False\<rparr> else r)"

definition invalidate_sessions_of :: "nat \<Rightarrow> session \<Rightarrow> session" where
  "invalidate_sessions_of uid x = (if user_id_s x = uid then x\<lparr>is_active_s := False\<rparr> else x)"

definition deactivate_user :: "store \<Rightarrow> nat \<Rightarrow> store \<times> bool" where
  "deactivate_user s uid =
     (s\<lparr>users := map (deactivate_row uid) (users s),
        sessions := map (invalidate_sessions_of uid) (sessions s)\<rparr>,
      True)"

text \<open>The demo user's id is skipped before the database is opened.\<close>

definition log_query ::
  "store \<Rightarrow> nat \<Rightarrow> string \<Rightarrow> string \<Rightarrow> pyfloat option \<Rightarrow> int option \<Rightarrow> string \<Rightarrow>
     string option \<Rightarrow> sql_timestamp \<Rightarrow> store" where
  "log_query s user_id nq sql et rc st em ts =
     (if user_id = 999 then s
      else s\<lparr>query_history := query_history s @
             [\<lparr>id_q = next_id (map id_q (query_history s)), user_id_q = user_id,
               natural_query = nq, generated_sql = sql, execution_time = et,
               result_count = rc, status = st, error_message = em, created_at_q = ts\<rparr>]\<rparr>)"

section \<open>Consecutive calls, store constraints, a worked store\<close>

text \<open>
  A caller that makes one \<open>authenticate\<close> call after the other for the same identifier;
  each attempt is the password, the two clock readings, \<open>CURRENT_TIMESTAMP\<close> and the
  token that call would issue.
\<close>

fun authenticate_all ::
  "(string \<Rightarrow> string \<Rightarrow> string) \<Rightarrow> store \<Rightarrow> string \<Rightarrow>
     (string \<times> datetime \<times> datetime \<times> sql_timestamp \<times> string) list \<Rightarrow> store" where
  "authenticate_all hash_password s ident [] = s"
| "authenticate_all hash_password s ident ((password, now_check, now_write, ts, tok) # rest) =
     authenticate_all hash_password
       (fst (authenticate hash_password s ident password now_check now_write ts tok)) ident rest"

text \<open>
  The calls a client of \<open>AuthSystem\<close> can make that write to the store, each with what
  it draws from outside, and the store a call leaves behind. A run is a list of calls
  made one after the other, \<open>foldl (exec H) s calls\<close>. The built-in administrator
  that \<open>_create_default_admin\<close> inserts into an empty \<open>users\<close> table is the first
  \<open>Create_user\<close> of a run.
\<close>

datatype call =
    Create_user string string string string string sql_timestamp
  | Authenticate string string datetime datetime sql_timestamp string
  | Validate_session string datetime
  | Logout string
  | Update_user_role nat string
  | Deactivate_user nat
  | Log_query nat string string "pyfloat option" "int option" string "string option"
      sql_timestamp

fun exec :: "(string \<Rightarrow> string \<Rightarrow> string) \<Rightarrow> store \<Rightarrow> call \<Rightarrow> store" where
  "exec H s (Create_user name mail password rl slt ts) =
     fst (create_user H s name mail password rl slt ts)"
| "exec H s (Authenticate ident password now_check now_write ts tok) =
     fst (authenticate H s ident password now_check now_write ts tok)"
| "exec H s (Validate_session tok now) = fst (validate_session s tok now)"
| "exec H s (Logout tok) = logout s tok"
| "exec H s (Update_user_role uid new_role) = fst (update_user_role s uid new_role)"
| "exec H s (Deactivate_user uid) = fst (deactivate_user s uid)"
| "exec H s (Log_query uid nq sql et rc st em ts) = log_query s uid nq sql et rc st em ts"

text \<open>
  The constraints the schema puts on \<open>sessions\<close>: \<open>session_token TEXT UNIQUE\<close> and
  \<open>FOREIGN KEY (user_id) REFERENCES users (id)\<close>.
\<close>

definition sessions_wf :: "store \<Rightarrow> bool" where
  "sessions_wf s \<longleftrightarrow>
     distinct (map session_token (sessions s)) \<and>
     (\<forall>x \<in> set (sessions s). \<exists>u \<in> set (users s). id_u u = user_id_s x)"

text \<open>
  What the two \<open>UPDATE\<close>s of \<open>authenticate\<close> keep true of every row: a lockout expiry
  is stored only together with a failed-attempt count of at least 5.
\<close>

definition lock_inv :: "store \<Rightarrow> bool" where
  "lock_inv s \<longleftrightarrow>
     (\<forall>u \<in> set (users s). locked_until u \<noteq> None \<longrightarrow> 5 \<le> failed_login_attempts u)"

text \<open>
  A small store for the worked examples, with a stand-in for the key-derivation function:
  \<open>alice\<close> is active with an open session, \<open>bob\<close> has been deactivated, \<open>carol\<close> has
  failed five times, the last time at 0, and is locked for thirty minutes from then.
\<close>

definition example_hash :: "string \<Rightarrow> string \<Rightarrow> string" where
  "example_hash password slt = slt @ password"

definition alice :: user where
  "alice = (new_user 1 ''alice'' ''alice@x.com'' (example_hash ''Secret1!'' ''a1'') ''a1'' VIEWER 0)
             \<lparr>last_login := Some 0\<rparr>"

definition bob :: user where
  "bob = (new_user 2 ''bob'' ''bob@x.com'' (example_hash ''Secret2!'' ''b2'') ''b2'' GUEST 0)
           \<lparr>is_active_u := False\<rparr>"

definition carol :: user where
  "carol = (new_user 3 ''carol'' ''carol@x.com'' (example_hash ''Secret3!'' ''c3'') ''c3'' ANALYST 0)
             \<lparr>failed_login_attempts := 5, locked_until := Some 1800000000\<rparr>"

definition alice_session :: session where
  "alice_session = new_session 1 1 ''tok1'' 0 28800000000"

text \<open>The calls that leave the worked store behind, starting from empty tables.\<close>

definition example_run :: "call list" where
  "example_run =
     [Create_user ''alice'' ''alice@x.com'' ''Secret1!'' VIEWER ''a1'' 0,
      Create_user ''bob'' ''bob@x.com'' ''Secret2!'' GUEST ''b2'' 0,
      Create_user ''carol'' ''carol@x.com'' ''Secret3!'' ANALYST ''c3'' 0,
      Deactivate_user 2,
      Authenticate ''carol'' ''wrong'' 0 0 0 ''tok0'',
      Authenticate ''carol'' ''wrong'' 0 0 0 ''tok0'',
      Authenticate ''carol'' ''wrong'' 0 0 0 ''tok0'',
      Authenticate ''carol'' ''wrong'' 0 0 0 ''tok0'',
      Authenticate ''carol'' ''wrong'' 0 0 0 ''tok0'',
      Authenticate ''alice'' ''Secret1!'' 0 0 0 ''tok1'']"

definition example_store :: store where
  "example_store =
     \<lparr>users = [alice, bob, carol], sessions = [alice_session], query_history = [],
      user_preferences = [default_preferences 1, default_preferences 2, default_preferences 3]\<rparr>"

text \<open>
  Registration compares a new username with the usernames and a new email with the
  emails, never one with the other: after the built-in administrator, the second account
  below has as its email what the third has as its username.
\<close>

definition shared_name_run :: "call list" where
  "shared_name_run =
     [Create_user ''admin'' ''admin@texttosql.com'' ''admin123'' ADMIN ''s0'' 0,
      Create_user ''u1'' ''x@y.z'' ''pw-one'' GUEST ''s1'' 0,
      Create_user ''x@y.z'' ''u2@y.z'' ''pw-two'' GUEST ''s2'' 0]"


section \<open>Verified properties\<close>

subsection \<open>Lookups\<close>

lemma set_select_users:
  "set (select_users s ident) = {u \<in> set (users s). username u = ident \<or> email u = ident}"
proof
  show "set (select_users s ident) \<subseteq> {u \<in> set (users s). username u = ident \<or> email u = ident}"
    by (auto simp: select_users_def)
next
  show "{u \<in> set (users s). username u = ident \<or> email u = ident} \<subseteq> set (select_users s ident)"
    by (auto simp: select_users_def)
qed

lemma find_user_None_iff:
  "find_user s ident = None \<longleftrightarrow>
     (\<forall>u \<in> set (users s). username u \<noteq> ident \<and> email u \<noteq> ident)"
proof -
  have "find_user s ident = None \<longleftrightarrow> set (select_users s ident) = {}"
    by (cases "select_users s ident") (simp_all add: find_user_def)
  also have "\<dots> \<longleftrightarrow> (\<forall>u \<in> set (users s). username u \<noteq> ident \<and> email u \<noteq> ident)"
    unfolding set_select_users by blast
  finally show ?thesis .
qed

lemma find_user_SomeD:
  assumes "find_user s ident = Some u"
  shows "u \<in> set (users s) \<and> (username u = ident \<or> email u = ident)"
proof -
  from assms obtain rest where "select_users s ident = u # rest"
    by (cases "select_users s ident") (simp_all add: find_user_def)
  then have "u \<in> set (select_users s ident)"
    by simp
  then show ?thesis
    unfolding set_select_users by simp
qed

text \<open>An \<open>UPDATE\<close> that leaves name and address alone does not change which row a lookup
  finds; the row found is the updated one.\<close>

lemma select_users_map:
  assumes "users s' = map f (users s)"
    and "\<And>r. username (f r) = username r \<and> email (f r) = email r"
  shows "select_users s' ident = map f (select_users s ident)"
proof -
  have "(\<lambda>r. username r = ident) \<circ> f = (\<lambda>r. username r = ident)"
    and "(\<lambda>r. email r = ident \<and> username r \<noteq> ident) \<circ> f =
         (\<lambda>r. email r = ident \<and> username r \<noteq> ident)"
    using assms(2) by (simp_all add: fun_eq_iff)
  then show ?thesis
    by (simp add: select_users_def assms(1) filter_map)
qed

lemma find_user_map:
  assumes "users s' = map f (users s)"
    and "\<And>r. username (f r) = username r \<and> email (f r) = email r"
  shows "find_user s' ident = map_option f (find_user s ident)"
  unfolding find_user_def select_users_map[OF assms]
  by (cases "select_users s ident") simp_all

lemma filter_unique_key:
  "distinct (map f xs) \<Longrightarrow> x \<in> set xs \<Longrightarrow>
   filter (\<lambda>y. f y = f x \<and> P y) xs = (if P x then [x] else [])"
proof (induction xs)
  case Nil
  then show ?case by simp
next
  case (Cons a xs)
  show ?case
  proof (cases "a = x")
    case True
    from Cons.prems have "f x \<notin> f ` set xs" using True by simp
    then have "\<forall>y \<in> set xs. f y \<noteq> f x"
      by (metis imageI)
    then have "filter (\<lambda>y. f y = f x \<and> P y) xs = []"
      by (simp add: filter_empty_conv)
    with True show ?thesis by simp
  next
    case False
    with Cons.prems have mem: "x \<in> set xs" by simp
    then have "f x \<in> f ` set xs" by simp
    with Cons.prems have "f a \<noteq> f x" by auto
    with Cons.IH Cons.prems mem show ?thesis by simp
  qed
qed

lemma select_session_unknown:
  assumes "\<forall>x \<in> set (sessions s). session_token x \<noteq> tok"
  shows "select_session s tok = None"
proof -
  have "filter (\<lambda>x. session_token x = tok \<and> is_active_s x) (sessions s) = []"
    using assms by (simp add: filter_empty_conv)
  then show ?thesis by (simp add: select_session_def)
qed

lemma select_session_inactive:
  assumes "distinct (map session_token (sessions s))" and "x \<in> set (sessions s)"
    and "session_token x = tok" and "\<not> is_active_s x"
  shows "select_session s tok = None"
proof -
  have "filter (\<lambda>y. session_token y = session_token x \<and> is_active_s y) (sessions s) = []"
    using filter_unique_key[OF assms(1,2), of is_active_s] assms(4) by simp
  then show ?thesis using assms(3) by (simp add: select_session_def)
qed

lemma select_session_active:
  assumes "sessions_wf s" and "x \<in> set (sessions s)"
    and "session_token x = tok" and "is_active_s x"
  shows "\<exists>u. select_session s tok = Some (x, u)"
proof -
  from assms(1) have d: "distinct (map session_token (sessions s))"
    and fk: "\<exists>u \<in> set (users s). id_u u = user_id_s x"
    using assms(2) by (simp_all add: sessions_wf_def)
  have f: "filter (\<lambda>y. session_token y = session_token x \<and> is_active_s y) (sessions s) = [x]"
    using filter_unique_key[OF d assms(2), of is_active_s] assms(4) by simp
  from fk obtain u0 where "u0 \<in> set (users s)" and "user_id_s x = id_u u0"
    by metis
  then have "\<exists>u \<in> set (users s). user_id_s x = id_u u" ..
  then have "filter (\<lambda>u. user_id_s x = id_u u) (users s) \<noteq> []"
    by (simp add: filter_empty_conv)
  then obtain u rest where "filter (\<lambda>u. user_id_s x = id_u u) (users s) = u # rest"
    by (cases "filter (\<lambda>u. user_id_s x = id_u u) (users s)") auto
  with f assms(3) show ?thesis by (simp add: select_session_def)
qed

lemma invalidate_token_idem:
  "invalidate_token tok (invalidate_token tok x) = invalidate_token tok x"
  by (simp add: invalidate_token_def)

lemma invalidate_token_inactive:
  "session_token (invalidate_token tok y) = tok \<Longrightarrow> \<not> is_active_s (invalidate_token tok y)"
  by (cases "session_token y = tok") (simp_all add: invalidate_token_def)

lemma no_active_after_invalidate:
  "filter (\<lambda>x. session_token x = tok \<and> is_active_s x) (map (invalidate_token tok) xs) = []"
  by (induction xs) (simp_all add: invalidate_token_def)

lemma select_session_logout: "select_session (logout s tok) tok = None"
  by (simp add: select_session_def logout_def no_active_after_invalidate)

lemma deactivate_user_flag:
  assumes "r \<in> set (users (fst (deactivate_user s uid)))" and "id_u r = uid"
  shows "\<not> is_active_u r"
proof -
  from assms(1) have "r \<in> deactivate_row uid ` set (users s)"
    by (simp add: deactivate_user_def)
  then obtain r0 where "r = deactivate_row uid r0"
    by (rule imageE)
  with assms(2) show ?thesis
    by (cases "id_u r0 = uid") (simp_all add: deactivate_row_def)
qed

subsection \<open>The worked store\<close>

lemmas example_users = alice_def bob_def carol_def new_user_def example_hash_def
lemmas example_defs = example_store_def example_users alice_session_def new_session_def
lemmas find_user_defs = find_user_def select_users_def

lemma find_alice: "find_user example_store ''alice'' = Some alice"
  by (simp add: find_user_defs example_defs)

lemma find_bob: "find_user example_store ''bob'' = Some bob"
  by (simp add: find_user_defs example_defs)

lemma find_carol: "find_user example_store ''carol'' = Some carol"
  by (simp add: find_user_defs example_defs)

lemma find_nobody:
  "\<forall>r \<in> set (users example_store). username r \<noteq> ''dave'' \<and> email r \<noteq> ''dave''"
  by (simp add: example_defs)

lemma example_store_wf: "sessions_wf example_store"
  by (simp add: sessions_wf_def example_defs)

lemma example_store_reachable:
  "foldl (exec example_hash) empty_store example_run = example_store"
  by (simp add: example_run_def empty_store_def create_user_def authenticate_def
      deactivate_user_def deactivate_row_def invalidate_sessions_of_def find_user_defs
      is_locked_def record_failure_def record_success_def next_id_def Let_def
      timedelta_minutes_def session_timeout_def timedelta_hours_def default_preferences_def
      example_defs)

text \<open>The identifier both accounts share resolves to the one that has it as username,
  and its password logs that one in.\<close>

lemma shared_name_users:
  "users (foldl (exec example_hash) empty_store shared_name_run) =
     [new_user 1 ''admin'' ''admin@texttosql.com'' ''s0admin123'' ''s0'' ADMIN 0,
      new_user 2 ''u1'' ''x@y.z'' ''s1pw-one'' ''s1'' GUEST 0,
      new_user 3 ''x@y.z'' ''u2@y.z'' ''s2pw-two'' ''s2'' GUEST 0]"
  by (simp add: shared_name_run_def empty_store_def create_user_def next_id_def Let_def
      new_user_def example_hash_def default_preferences_def)

lemma find_user_username_first:
  "find_user (foldl (exec example_hash) empty_store shared_name_run) ''x@y.z'' =
     Some (new_user 3 ''x@y.z'' ''u2@y.z'' ''s2pw-two'' ''s2'' GUEST 0)"
  by (simp add: find_user_defs shared_name_users new_user_def)

lemma authenticate_username_first:
  "map_option ui_user_id
     (fst (snd (authenticate example_hash (foldl (exec example_hash) empty_store shared_name_run)
                  ''x@y.z'' ''pw-two'' 1 1 1 ''tok1''))) = Some 3"
proof -
  have "sessions (foldl (exec example_hash) empty_store shared_name_run) = []"
    by (simp add: shared_name_run_def empty_store_def create_user_def Let_def)
  then show ?thesis
    using find_user_username_first
    by (simp add: authenticate_def is_locked_def new_user_def example_hash_def)
qed


lemma find_user_deactivate_user:
  "find_user (fst (deactivate_user s uid)) ident =
     map_option (deactivate_row uid) (find_user s ident)"
  by (rule find_user_map) (simp_all add: deactivate_user_def deactivate_row_def)


subsection \<open>Steps of \<open>authenticate\<close>\<close>

lemma wrong_password_step:
  assumes "find_user s ident = Some u" and "is_active_u u" and "\<not> is_locked u c"
    and "H pw (salt u) \<noteq> password_hash u"
  shows "snd (authenticate H s ident pw c w ts tok) = InvalidCredentials"
    and "find_user (fst (authenticate H s ident pw c w ts tok)) ident =
           Some (u\<lparr>failed_login_attempts := failed_login_attempts u + 1,
                   locked_until := (if failed_login_attempts u + 1 \<ge> 5
                                    then Some (w + timedelta_minutes 30) else None)\<rparr>)"
proof -
  let ?n = "failed_login_attempts u + 1"
  let ?l = "if ?n \<ge> 5 then Some (w + timedelta_minutes 30) else None"
  have a: "authenticate H s ident pw c w ts tok =
             (s\<lparr>users := map (record_failure (id_u u) ?n ?l) (users s)\<rparr>, None, [])"
    using assms by (simp add: authenticate_def Let_def)
  show "snd (authenticate H s ident pw c w ts tok) = InvalidCredentials"
    by (simp add: a InvalidCredentials_def)
  have "find_user (s\<lparr>users := map (record_failure (id_u u) ?n ?l) (users s)\<rparr>) ident =
          map_option (record_failure (id_u u) ?n ?l) (find_user s ident)"
    by (rule find_user_map) (simp_all add: record_failure_def)
  then show "find_user (fst (authenticate H s ident pw c w ts tok)) ident =
           Some (u\<lparr>failed_login_attempts := ?n, locked_until := ?l\<rparr>)"
    using assms(1) by (simp add: a record_failure_def)
qed


lemma wrong_password_unlocked:
  assumes "find_user s ident = Some (u\<lparr>failed_login_attempts := n, locked_until := None\<rparr>)"
    and "is_active_u u" and "H pw (salt u) \<noteq> password_hash u"
  shows "find_user (fst (authenticate H s ident pw c w ts tok)) ident =
           Some (u\<lparr>failed_login_attempts := n + 1,
                   locked_until := (if n + 1 \<ge> 5 then Some (w + timedelta_minutes 30)
                                    else None)\<rparr>)"
  using wrong_password_step(2)[OF assms(1), of c H pw w ts tok] assms(2,3)
  by (simp add: is_locked_def)

lemma bob_rejected:
  "authenticate example_hash example_store ''bob'' pw c w ts tok
     = (example_store, AccountDeactivated)"
  using find_bob
  by (simp add: authenticate_def is_locked_def AccountDeactivated_def example_users)

lemma authenticate_success:
  assumes "fst (snd (authenticate H s ident pw c w ts tok)) = Some info"
  obtains u where "find_user s ident = Some u" and "ui_user_id info = id_u u"
    and "users (fst (authenticate H s ident pw c w ts tok)) =
           map (record_success (id_u u) ts) (users s)"
proof -
  from assms obtain u where fu: "find_user s ident = Some u"
    by (cases "find_user s ident") (simp_all add: authenticate_def)
  from assms fu have l: "\<not> is_locked u c"
    by (cases "is_locked u c") (simp_all add: authenticate_def)
  from assms fu l have a: "is_active_u u"
    by (cases "is_active_u u") (simp_all add: authenticate_def)
  from assms fu l a have h: "H pw (salt u) = password_hash u"
    by (cases "H pw (salt u) = password_hash u") (simp_all add: authenticate_def Let_def)
  from assms fu l a h have t: "tok \<notin> set (map session_token (sessions s))"
    by (cases "tok \<in> set (map session_token (sessions s))") (simp_all add: authenticate_def)
  from fu l a h t assms have "ui_user_id info = id_u u"
    by (auto simp add: authenticate_def)
  moreover from fu l a h t
  have "users (fst (authenticate H s ident pw c w ts tok)) =
           map (record_success (id_u u) ts) (users s)"
    by (simp add: authenticate_def)
  ultimately show ?thesis using fu that by blast
qed

lemma elapsed_lock_not_locked:
  assumes "find_user s ident = Some u" and "locked_until u = Some l" and "l \<le> c"
  shows "snd (authenticate H s ident pw c w ts tok) \<noteq> AccountLocked"
    and "is_active_u u \<Longrightarrow> H pw (salt u) = password_hash u \<Longrightarrow>
         tok \<notin> set (map session_token (sessions s)) \<Longrightarrow>
         fst (snd (authenticate H s ident pw c w ts tok)) \<noteq> None"
proof -
  from assms(2,3) have n: "\<not> is_locked u c"
    by (simp add: is_locked_def)
  show "snd (authenticate H s ident pw c w ts tok) \<noteq> AccountLocked"
    using assms(1) n by (simp add: authenticate_def AccountLocked_def Let_def)
  show "fst (snd (authenticate H s ident pw c w ts tok)) \<noteq> None"
    if "is_active_u u" "H pw (salt u) = password_hash u"
       "tok \<notin> set (map session_token (sessions s))"
    using assms(1) n that by (simp add: authenticate_def)
qed

subsection \<open>The constraints on \<open>sessions\<close> hold in every reachable store\<close>

lemma sessions_wf_alt:
  "sessions_wf s \<longleftrightarrow>
     distinct (map session_token (sessions s)) \<and>
     user_id_s ` set (sessions s) \<subseteq> id_u ` set (users s)"
proof -
  have "(\<forall>x \<in> set (sessions s). \<exists>u \<in> set (users s). id_u u = user_id_s x) \<longleftrightarrow>
        user_id_s ` set (sessions s) \<subseteq> id_u ` set (users s)"
  proof
    assume a: "\<forall>x \<in> set (sessions s). \<exists>u \<in> set (users s). id_u u = user_id_s x"
    show "user_id_s ` set (sessions s) \<subseteq> id_u ` set (users s)"
    proof
      fix i assume "i \<in> user_id_s ` set (sessions s)"
      then obtain x where "x \<in> set (sessions s)" and "i = user_id_s x" by (rule imageE)
      with a obtain u where "u \<in> set (users s)" and "id_u u = i" by metis
      then show "i \<in> id_u ` set (users s)" by (metis imageI)
    qed
  next
    assume b: "user_id_s ` set (sessions s) \<subseteq> id_u ` set (users s)"
    show "\<forall>x \<in> set (sessions s). \<exists>u \<in> set (users s). id_u u = user_id_s x"
    proof
      fix x assume "x \<in> set (sessions s)"
      then have "user_id_s x \<in> id_u ` set (users s)" using b by (metis imageI subsetD)
      then obtain u where "u \<in> set (users s)" and "user_id_s x = id_u u" by (rule imageE)
      then show "\<exists>u \<in> set (users s). id_u u = user_id_s x" by metis
    qed
  qed
  then show ?thesis by (simp add: sessions_wf_def)
qed

lemma sessions_wf_rows:
  assumes "sessions_wf s"
    and "map session_token (sessions s') = map session_token (sessions s)"
    and "user_id_s ` set (sessions s') \<subseteq> user_id_s ` set (sessions s)"
    and "id_u ` set (users s) \<subseteq> id_u ` set (users s')"
  shows "sessions_wf s'"
proof -
  from assms(1) have "distinct (map session_token (sessions s))"
    and "user_id_s ` set (sessions s) \<subseteq> id_u ` set (users s)"
    by (simp_all add: sessions_wf_alt)
  with assms(2-4) have "distinct (map session_token (sessions s'))"
    and "user_id_s ` set (sessions s') \<subseteq> id_u ` set (users s')"
    by (simp, metis subset_trans)
  then show ?thesis by (simp add: sessions_wf_alt)
qed

lemma invalidate_token_keys:
  "session_token (invalidate_token tok x) = session_token x"
  "user_id_s (invalidate_token tok x) = user_id_s x"
  by (simp_all add: invalidate_token_def)

lemma record_failure_id: "id_u (record_failure i n l r) = id_u r"
  by (simp add: record_failure_def)

lemma record_success_id: "id_u (record_success i ts r) = id_u r"
  by (simp add: record_success_def)

lemma sessions_wf_empty: "sessions_wf empty_store"
  by (simp add: sessions_wf_def empty_store_def)

lemma set_role_id: "id_u (set_role uid new_role r) = id_u r"
  by (simp add: set_role_def)

lemma deactivate_row_id: "id_u (deactivate_row uid r) = id_u r"
  by (simp add: deactivate_row_def)

lemma invalidate_sessions_of_keys:
  "session_token (invalidate_sessions_of uid x) = session_token x"
  "user_id_s (invalidate_sessions_of uid x) = user_id_s x"
  by (simp_all add: invalidate_sessions_of_def)

lemma sessions_wf_update_user_role:
  assumes "sessions_wf s"
  shows "sessions_wf (fst (update_user_role s uid new_role))"
  using assms
  by (rule sessions_wf_rows)
     (simp_all add: update_user_role_def comp_def image_image set_role_id)

lemma sessions_wf_deactivate_user:
  assumes "sessions_wf s"
  shows "sessions_wf (fst (deactivate_user s uid))"
  using assms
  by (rule sessions_wf_rows)
     (simp_all add: deactivate_user_def comp_def image_image deactivate_row_id
        invalidate_sessions_of_keys)


lemma sessions_wf_create_user:
  assumes "sessions_wf s"
  shows "sessions_wf (fst (create_user H s name mail password rl slt ts))"
  using assms
  by (rule sessions_wf_rows) (simp_all add: create_user_def Let_def subset_insertI)

lemma sessions_wf_logout:
  assumes "sessions_wf s"
  shows "sessions_wf (logout s tok)"
  using assms
  by (rule sessions_wf_rows) (simp_all add: logout_def comp_def image_image invalidate_token_keys)

lemma sessions_wf_validate_session:
  assumes "sessions_wf s"
  shows "sessions_wf (fst (validate_session s tok now))"
proof -
  have "fst (validate_session s tok now) = s \<or> fst (validate_session s tok now) = logout s tok"
    by (simp add: validate_session_def logout_def split: option.splits prod.splits)
  then show ?thesis
  proof
    assume "fst (validate_session s tok now) = s"
    with assms show ?thesis by simp
  next
    assume "fst (validate_session s tok now) = logout s tok"
    with sessions_wf_logout[OF assms, of tok] show ?thesis by simp
  qed
qed

lemma sessions_wf_log_query:
  assumes "sessions_wf s"
  shows "sessions_wf (log_query s uid nq sql et rc st em ts)"
  using assms
  by (rule sessions_wf_rows) (simp_all add: log_query_def)

lemma authenticate_store_cases:
  obtains (same) "fst (authenticate H s ident pw c w ts tok) = s"
  | (failure) u n l where "find_user s ident = Some u" and "l \<noteq> None \<longrightarrow> 5 \<le> n"
      and "fst (authenticate H s ident pw c w ts tok) =
         s\<lparr>users := map (record_failure (id_u u) n l) (users s)\<rparr>"
  | (success) u where "find_user s ident = Some u"
      and "tok \<notin> set (map session_token (sessions s))"
      and "fst (authenticate H s ident pw c w ts tok) =
         s\<lparr>users := map (record_success (id_u u) ts) (users s),
           sessions := sessions s @
             [new_session (next_id (map id_s (sessions s))) (id_u u) tok ts
                (w + session_timeout)]\<rparr>"
proof (cases "find_user s ident")
  case None
  then have "fst (authenticate H s ident pw c w ts tok) = s"
    by (simp add: authenticate_def)
  then show ?thesis by (rule same)
next
  case (Some u)
  show ?thesis
  proof (cases "is_locked u c \<or> \<not> is_active_u u")
    case True
    with Some have "fst (authenticate H s ident pw c w ts tok) = s"
      by (auto simp add: authenticate_def)
    then show ?thesis by (rule same)
  next
    case False
    then have l: "\<not> is_locked u c" and a: "is_active_u u" by simp_all
    show ?thesis
    proof (cases "H pw (salt u) = password_hash u")
      case False
      let ?n = "failed_login_attempts u + 1"
      let ?l = "if ?n \<ge> 5 then Some (w + timedelta_minutes 30) else None"
      from False Some l a have e: "fst (authenticate H s ident pw c w ts tok) =
         s\<lparr>users := map (record_failure (id_u u) ?n ?l) (users s)\<rparr>"
        by (simp add: authenticate_def Let_def)
      have b: "?l \<noteq> None \<longrightarrow> 5 \<le> ?n"
        by simp
      from Some b e show ?thesis by (rule failure)
    next
      case True
      show ?thesis
      proof (cases "tok \<in> set (map session_token (sessions s))")
        case True
        with Some l a \<open>H pw (salt u) = password_hash u\<close>
        have "fst (authenticate H s ident pw c w ts tok) = s"
          by (simp add: authenticate_def)
        then show ?thesis by (rule same)
      next
        case False
        with Some l a \<open>H pw (salt u) = password_hash u\<close>
        have "fst (authenticate H s ident pw c w ts tok) =
         s\<lparr>users := map (record_success (id_u u) ts) (users s),
           sessions := sessions s @
             [new_session (next_id (map id_s (sessions s))) (id_u u) tok ts
                (w + session_timeout)]\<rparr>"
          by (simp add: authenticate_def)
        with Some False show ?thesis by (rule success)
      qed
    qed
  qed
qed


lemma sessions_wf_authenticate:
  assumes "sessions_wf s"
  shows "sessions_wf (fst (authenticate H s ident pw c w ts tok))"
proof (cases rule: authenticate_store_cases[of H s ident pw c w ts tok])
  case same
  with assms show ?thesis by simp
next
  case (failure u n l)
  have "sessions_wf (s\<lparr>users := map (record_failure (id_u u) n l) (users s)\<rparr>)"
    using assms
    by (rule sessions_wf_rows) (simp_all add: comp_def image_image record_failure_id)
  with failure(3) show ?thesis by simp
next
  case (success u)
  let ?s' = "s\<lparr>users := map (record_success (id_u u) ts) (users s),
           sessions := sessions s @
             [new_session (next_id (map id_s (sessions s))) (id_u u) tok ts
                (w + session_timeout)]\<rparr>"
  from assms have d: "distinct (map session_token (sessions s))"
    and fk: "user_id_s ` set (sessions s) \<subseteq> id_u ` set (users s)"
    by (simp_all add: sessions_wf_alt)
  have ids: "id_u ` set (users ?s') = id_u ` set (users s)"
    by (simp add: image_image record_success_id)
  from find_user_SomeD[OF success(1)] have "id_u u \<in> id_u ` set (users s)"
    by (metis imageI)
  with fk have "user_id_s ` set (sessions ?s') \<subseteq> id_u ` set (users s)"
    by (simp add: new_session_def)
  then have "user_id_s ` set (sessions ?s') \<subseteq> id_u ` set (users ?s')"
    by (simp only: ids)
  moreover from d success(2) have "distinct (map session_token (sessions ?s'))"
    by (simp add: new_session_def)
  ultimately have "sessions_wf ?s'"
    unfolding sessions_wf_alt by (rule conjI[rotated])
  with success(3) show ?thesis by simp
qed


lemma sessions_wf_exec:
  assumes "sessions_wf s"
  shows "sessions_wf (exec H s cl)"
  using assms
  by (cases cl)
     (simp_all add: sessions_wf_create_user sessions_wf_authenticate
        sessions_wf_validate_session sessions_wf_logout sessions_wf_update_user_role
        sessions_wf_deactivate_user sessions_wf_log_query)

lemma sessions_wf_run:
  "sessions_wf s \<Longrightarrow> sessions_wf (foldl (exec H) s cls)"
  by (induction cls arbitrary: s) (simp_all add: sessions_wf_exec)

lemma sessions_wf_reachable: "sessions_wf (foldl (exec H) empty_store cls)"
  by (rule sessions_wf_run) (rule sessions_wf_empty)

subsection \<open>A lockout expiry comes with a count of at least 5\<close>

lemma lock_inv_map:
  assumes "lock_inv s" and "users s' = map f (users s)"
    and "\<And>r. (locked_until r \<noteq> None \<longrightarrow> 5 \<le> failed_login_attempts r) \<Longrightarrow>
              (locked_until (f r) \<noteq> None \<longrightarrow> 5 \<le> failed_login_attempts (f r))"
  shows "lock_inv s'"
  unfolding lock_inv_def
proof (intro ballI)
  fix r' assume "r' \<in> set (users s')"
  then have "r' \<in> f ` set (users s)"
    by (simp add: assms(2))
  then obtain r where m: "r \<in> set (users s)" and e: "r' = f r"
    by (elim imageE)
  from assms(1) m have "locked_until r \<noteq> None \<longrightarrow> 5 \<le> failed_login_attempts r"
    by (simp add: lock_inv_def)
  then show "locked_until r' \<noteq> None \<longrightarrow> 5 \<le> failed_login_attempts r'"
    unfolding e by (rule assms(3))
qed

lemma lock_inv_same_users:
  assumes "lock_inv s" and "users s' = users s"
  shows "lock_inv s'"
  using assms by (simp add: lock_inv_def)

lemma lock_inv_empty: "lock_inv empty_store"
  by (simp add: lock_inv_def empty_store_def)

lemma lock_inv_create_user:
  assumes "lock_inv s"
  shows "lock_inv (fst (create_user H s name mail password rl slt ts))"
proof -
  have "locked_until (new_user i name mail ph slt rl ts) = None" for i ph
    by (simp add: new_user_def)
  then show ?thesis
    using assms by (simp add: create_user_def Let_def lock_inv_def)
qed

lemma lock_inv_authenticate:
  assumes "lock_inv s"
  shows "lock_inv (fst (authenticate H s ident pw c w ts tok))"
proof (cases rule: authenticate_store_cases[of H s ident pw c w ts tok])
  case same
  with assms show ?thesis by simp
next
  case (failure u n l)
  have "lock_inv (s\<lparr>users := map (record_failure (id_u u) n l) (users s)\<rparr>)"
    using assms
  proof (rule lock_inv_map)
    show "users (s\<lparr>users := map (record_failure (id_u u) n l) (users s)\<rparr>) =
            map (record_failure (id_u u) n l) (users s)"
      by simp
  next
    fix r :: user assume "locked_until r \<noteq> None \<longrightarrow> 5 \<le> failed_login_attempts r"
    with failure(2)
    show "locked_until (record_failure (id_u u) n l r) \<noteq> None \<longrightarrow>
          5 \<le> failed_login_attempts (record_failure (id_u u) n l r)"
      by (cases "id_u r = id_u u") (simp_all add: record_failure_def)
  qed
  with failure(3) show ?thesis by simp
next
  case (success u)
  let ?s' = "s\<lparr>users := map (record_success (id_u u) ts) (users s),
           sessions := sessions s @
             [new_session (next_id (map id_s (sessions s))) (id_u u) tok ts
                (w + session_timeout)]\<rparr>"
  have "lock_inv ?s'"
    using assms
  proof (rule lock_inv_map)
    show "users ?s' = map (record_success (id_u u) ts) (users s)"
      by simp
  next
    fix r :: user assume "locked_until r \<noteq> None \<longrightarrow> 5 \<le> failed_login_attempts r"
    then show "locked_until (record_success (id_u u) ts r) \<noteq> None \<longrightarrow>
          5 \<le> failed_login_attempts (record_success (id_u u) ts r)"
      by (cases "id_u r = id_u u") (simp_all add: record_success_def)
  qed
  with success(3) show ?thesis by simp
qed

lemma lock_inv_validate_session:
  assumes "lock_inv s"
  shows "lock_inv (fst (validate_session s tok now))"
proof -
  have "fst (validate_session s tok now) = s \<or> fst (validate_session s tok now) = logout s tok"
    by (simp add: validate_session_def logout_def split: option.splits prod.splits)
  then have "users (fst (validate_session s tok now)) = users s"
    by (rule disjE) (simp_all add: logout_def)
  with assms show ?thesis by (rule lock_inv_same_users)
qed

lemma lock_inv_update_user_role:
  assumes "lock_inv s"
  shows "lock_inv (fst (update_user_role s uid new_role))"
  using assms
proof (rule lock_inv_map)
  show "users (fst (update_user_role s uid new_role)) = map (set_role uid new_role) (users s)"
    by (simp add: update_user_role_def)
next
  fix r :: user assume "locked_until r \<noteq> None \<longrightarrow> 5 \<le> failed_login_attempts r"
  then show "locked_until (set_role uid new_role r) \<noteq> None \<longrightarrow>
          5 \<le> failed_login_attempts (set_role uid new_role r)"
    by (cases "id_u r = uid") (simp_all add: set_role_def)
qed

lemma lock_inv_deactivate_user:
  assumes "lock_inv s"
  shows "lock_inv (fst (deactivate_user s uid))"
  using assms
proof (rule lock_inv_map)
  show "users (fst (deactivate_user s uid)) = map (deactivate_row uid) (users s)"
    by (simp add: deactivate_user_def)
next
  fix r :: user assume "locked_until r \<noteq> None \<longrightarrow> 5 \<le> failed_login_attempts r"
  then show "locked_until (deactivate_row uid r) \<noteq> None \<longrightarrow>
          5 \<le> failed_login_attempts (deactivate_row uid r)"
    by (cases "id_u r = uid") (simp_all add: deactivate_row_def)
qed

lemma lock_inv_exec:
  assumes "lock_inv s"
  shows "lock_inv (exec H s cl)"
proof (cases cl)
  case (Create_user name mail password rl slt ts)
  with assms show ?thesis by (simp add: lock_inv_create_user)
next
  case (Authenticate ident password now_check now_write ts tok)
  with assms show ?thesis by (simp add: lock_inv_authenticate)
next
  case (Validate_session tok now)
  with assms show ?thesis by (simp add: lock_inv_validate_session)
next
  case (Logout tok)
  with assms show ?thesis by (simp add: logout_def lock_inv_def)
next
  case (Update_user_role uid new_role)
  with assms show ?thesis by (simp add: lock_inv_update_user_role)
next
  case (Deactivate_user uid)
  with assms show ?thesis by (simp add: lock_inv_deactivate_user)
next
  case (Log_query uid nq sql et rc st em ts)
  with assms show ?thesis by (simp add: log_query_def lock_inv_def)
qed

lemma lock_inv_run: "lock_inv s \<Longrightarrow> lock_inv (foldl (exec H) s cls)"
  by (induction cls arbitrary: s) (simp_all add: lock_inv_exec)

lemma lock_inv_reachable: "lock_inv (foldl (exec H) empty_store cls)"
  by (rule lock_inv_run) (rule lock_inv_empty)

lemma count_zero_not_locked:
  assumes "find_user (foldl (exec H) empty_store cls) ident = Some u"
    and "failed_login_attempts u = 0"
  shows "\<not> is_locked u now"
proof -
  from find_user_SomeD[OF assms(1)] have "u \<in> set (users (foldl (exec H) empty_store cls))"
    by simp
  with lock_inv_reachable[of H cls] assms(2) have "locked_until u = None"
    by (auto simp: lock_inv_def)
  then show ?thesis by (simp add: is_locked_def)
qed

subsection \<open>A stored lockout expiry is changed by \<open>authenticate\<close> only\<close>

lemma set_role_locked_until: "locked_until (set_role uid new_role r) = locked_until r"
  by (simp add: set_role_def)

lemma deactivate_row_locked_until: "locked_until (deactivate_row uid r) = locked_until r"
  by (simp add: deactivate_row_def)

lemma locked_until_kept_exec:
  assumes "\<forall>i p a b t k. cl \<noteq> Authenticate i p a b t k"
  shows "map locked_until (take (length (users s)) (users (exec H s cl))) =
           map locked_until (users s)"
proof (cases cl)
  case (Create_user name mail password rl slt ts)
  have "take (length (users s)) (users (fst (create_user H s name mail password rl slt ts)))
          = users s"
    by (simp add: create_user_def Let_def)
  with Create_user show ?thesis by simp
next
  case (Authenticate ident password now_check now_write ts tok)
  with assms show ?thesis by simp
next
  case (Validate_session tok now)
  have "fst (validate_session s tok now) = s \<or> fst (validate_session s tok now) = logout s tok"
    by (simp add: validate_session_def logout_def split: option.splits prod.splits)
  then have "users (fst (validate_session s tok now)) = users s"
    by (rule disjE) (simp_all add: logout_def)
  with Validate_session show ?thesis by simp
next
  case (Logout tok)
  then show ?thesis by (simp add: logout_def)
next
  case (Update_user_role uid new_role)
  then show ?thesis
    by (simp add: update_user_role_def comp_def set_role_locked_until)
next
  case (Deactivate_user uid)
  then show ?thesis
    by (simp add: deactivate_user_def comp_def deactivate_row_locked_until)
next
  case (Log_query uid nq sql et rc st em ts)
  then show ?thesis by (simp add: log_query_def)
qed

lemma authenticate_keeps_other_rows:
  assumes "r \<in> set (users s)" and "map_option id_u (find_user s ident) \<noteq> Some (id_u r)"
  shows "r \<in> set (users (fst (authenticate H s ident pw c w ts tok)))"
proof (cases rule: authenticate_store_cases[of H s ident pw c w ts tok])
  case same
  with assms(1) show ?thesis by simp
next
  case (failure u n l)
  with assms(2) have "id_u r \<noteq> id_u u" by auto
  then have "record_failure (id_u u) n l r = r"
    by (simp add: record_failure_def)
  moreover have "record_failure (id_u u) n l r \<in> record_failure (id_u u) n l ` set (users s)"
    using assms(1) by (rule imageI)
  ultimately show ?thesis by (simp add: failure(3))
next
  case (success u)
  with assms(2) have "id_u r \<noteq> id_u u" by auto
  then have "record_success (id_u u) ts r = r"
    by (simp add: record_success_def)
  moreover have "record_success (id_u u) ts r \<in> record_success (id_u u) ts ` set (users s)"
    using assms(1) by (rule imageI)
  ultimately show ?thesis by (simp add: success(3))
qed

subsection \<open>The query log is written by \<open>log_query\<close> only\<close>

lemma query_history_exec:
  "query_history (exec H s cl) = query_history s \<or>
   (\<exists>uid nq sql et rc st em ts. cl = Log_query uid nq sql et rc st em ts \<and>
      query_history (exec H s cl) = query_history (log_query s uid nq sql et rc st em ts))"
proof (cases cl)
  case (Create_user name mail password rl slt ts)
  then show ?thesis by (simp add: create_user_def Let_def)
next
  case (Authenticate ident password now_check now_write ts tok)
  have "query_history (fst (authenticate H s ident password now_check now_write ts tok))
          = query_history s"
    by (cases rule: authenticate_store_cases[of H s ident password now_check now_write ts tok])
       simp_all
  with Authenticate show ?thesis by simp
next
  case (Validate_session tok now)
  have "fst (validate_session s tok now) = s \<or> fst (validate_session s tok now) = logout s tok"
    by (simp add: validate_session_def logout_def split: option.splits prod.splits)
  then have "query_history (fst (validate_session s tok now)) = query_history s"
    by (rule disjE) (simp_all add: logout_def)
  with Validate_session show ?thesis by simp
next
  case (Logout tok)
  then show ?thesis by (simp add: logout_def)
next
  case (Update_user_role uid new_role)
  then show ?thesis by (simp add: update_user_role_def)
next
  case (Deactivate_user uid)
  then show ?thesis by (simp add: deactivate_user_def)
next
  case (Log_query uid nq sql et rc st em ts)
  then show ?thesis by simp
qed

lemma no_demo_entries_log_query:
  assumes "\<forall>e \<in> set (query_history s). user_id_q e \<noteq> 999"
  shows "\<forall>e \<in> set (query_history (log_query s uid nq sql et rc st em ts)). user_id_q e \<noteq> 999"
  using assms by (cases "uid = 999") (simp_all add: log_query_def)

lemma no_demo_entries_exec:
  assumes "\<forall>e \<in> set (query_history s). user_id_q e \<noteq> 999"
  shows "\<forall>e \<in> set (query_history (exec H s cl)). user_id_q e \<noteq> 999"
  using query_history_exec[of H s cl]
proof
  assume "query_history (exec H s cl) = query_history s"
  with assms show ?thesis by simp
next
  assume "\<exists>uid nq sql et rc st em ts. cl = Log_query uid nq sql et rc st em ts \<and>
      query_history (exec H s cl) = query_history (log_query s uid nq sql et rc st em ts)"
  then obtain uid nq sql et rc st em ts
    where "query_history (exec H s cl) = query_history (log_query s uid nq sql et rc st em ts)"
    by blast
  with no_demo_entries_log_query[OF assms, of uid nq sql et rc st em ts]
  show ?thesis by simp
qed

lemma no_demo_entries_run:
  "\<forall>e \<in> set (query_history s). user_id_q e \<noteq> 999 \<Longrightarrow>
   \<forall>e \<in> set (query_history (foldl (exec H) s cls)). user_id_q e \<noteq> 999"
proof (induction cls arbitrary: s)
  case Nil
  then show ?case by simp
next
  case (Cons cl cls)
  from Cons.prems have "\<forall>e \<in> set (query_history (exec H s cl)). user_id_q e \<noteq> 999"
    by (rule no_demo_entries_exec)
  then have "\<forall>e \<in> set (query_history (foldl (exec H) (exec H s cl) cls)). user_id_q e \<noteq> 999"
    by (rule Cons.IH)
  then show ?case by simp
qed


subsection \<open>Role table\<close>

text \<open>
  C9. The permissions of \<open>guest\<close> form a strict subset of those of \<open>admin\<close>: each guest
  permission is an admin permission, and \<open>manage_users\<close> is an admin permission that guest
  lacks.
\<close>

theorem guest_strict_subset_admin:
  "set (permissionsFor GUEST) \<subset> set (permissionsFor ADMIN) \<and>
   MANAGE_USERS \<in> set (permissionsFor ADMIN) \<and>
   MANAGE_USERS \<notin> set (permissionsFor GUEST)"
  by (auto simp: permissionsFor_def ROLE_PERMISSIONS_def ADMIN_def ANALYST_def VIEWER_def
      GUEST_def READ_DATA_def WRITE_DATA_def DELETE_DATA_def MANAGE_USERS_def
      VIEW_ANALYTICS_def EXPORT_DATA_def CREATE_DASHBOARDS_def MANAGE_SCHEMAS_def
      VIEW_QUERY_HISTORY_def SHARE_QUERIES_def)

subsection \<open>Audit log\<close>

text \<open>
  C10. A \<open>log_query\<close> call for account id 999 returns without writing: the store, and with
  it the query-history table, is what it was. No other operation writes to that table, so
  no run from the empty store ever leaves an entry attributed to account id 999 in it.
\<close>

theorem log_query_demo_user_skipped:
  "log_query s 999 nq sql et rc st em ts = s \<and>
   query_history (log_query s 999 nq sql et rc st em ts) = query_history s \<and>
   (\<forall>e \<in> set (query_history (foldl (exec H) empty_store cls)). user_id_q e \<noteq> 999)"
proof -
  have "\<forall>e \<in> set (query_history empty_store). user_id_q e \<noteq> 999"
    by (simp add: empty_store_def)
  then have "\<forall>e \<in> set (query_history (foldl (exec H) empty_store cls)). user_id_q e \<noteq> 999"
    by (rule no_demo_entries_run)
  then show ?thesis by (simp add: log_query_def)
qed

theorem log_query_demo_user_skipped_witness:
  "log_query example_store 999 ''top customers'' ''SELECT 1'' None (Some 3) ''success'' None 9
     = example_store \<and>
   query_history (foldl (exec example_hash) empty_store
      [Create_user ''demo'' ''demo@x.com'' ''pw'' GUEST ''s1'' 1,
       Log_query 999 ''top customers'' ''SELECT 1'' None (Some 3) ''success'' None 9]) = []"
  using log_query_demo_user_skipped
          [of example_store "''top customers''" "''SELECT 1''" None "Some 3" "''success''" None 9
             example_hash
             "[Create_user ''demo'' ''demo@x.com'' ''pw'' GUEST ''s1'' 1,
               Log_query 999 ''top customers'' ''SELECT 1'' None (Some 3) ''success'' None 9]"]
  by (simp add: log_query_def create_user_def empty_store_def Let_def)

subsection \<open>Denials of \<open>authenticate\<close>\<close>

text \<open>
  C6. When the account the identifier resolves to has a lockout expiry that lies strictly
  after the clock reading, \<open>authenticate\<close> answers \<open>AccountLocked\<close> and leaves the whole
  store as it was, the failed-attempt counter and the expiry included. The answer is the
  same for every password and every hash function: no verification takes part in it.
\<close>

theorem locked_rejected_unchanged:
  assumes "find_user s ident = Some u" and "locked_until u = Some l" and "now_check < l"
  shows "authenticate H s ident pw now_check now_write ts tok = (s, AccountLocked)"
  using assms by (simp add: authenticate_def is_locked_def AccountLocked_def)

theorem locked_rejected_unchanged_witness:
  "find_user example_store ''carol'' = Some carol \<and>
   locked_until carol = Some 1800000000 \<and> (1799999999::int) < 1800000000 \<and>
   authenticate example_hash example_store ''carol'' ''Secret3!'' 1799999999 1799999999 7 ''tok2''
     = (example_store, AccountLocked)"
proof -
  have l: "locked_until carol = Some 1800000000"
    by (simp add: example_users)
  have t: "(1799999999::int) < 1800000000"
    by simp
  from locked_rejected_unchanged[OF find_carol l t] find_carol l t show ?thesis
    by (intro conjI)
qed

text \<open>
  C7. When the account the identifier resolves to has its active flag off and is not locked
  at the clock reading, \<open>authenticate\<close> answers \<open>AccountDeactivated\<close> for every
  password and leaves the store as it was, so that every later attempt meets the same
  account. That is the state \<open>deactivate_user\<close> puts the account with the given id in:
  an identifier that resolved to that account before the call resolves to it afterwards,
  now inactive.
\<close>

theorem deactivated_rejected:
  "(find_user s ident = Some u \<and> \<not> is_active_u u \<and> \<not> is_locked u now_check \<longrightarrow>
      authenticate H s ident pw now_check now_write ts tok = (s, AccountDeactivated)) \<and>
   (find_user (fst (deactivate_user s' uid)) ident = Some v \<and> id_u v = uid \<and>
    \<not> is_locked v now_check \<longrightarrow>
      authenticate H (fst (deactivate_user s' uid)) ident pw now_check now_write ts tok =
        (fst (deactivate_user s' uid), AccountDeactivated)) \<and>
   (find_user s' ident = Some u' \<and> id_u u' = uid \<and> \<not> is_locked u' now_check \<longrightarrow>
      authenticate H (fst (deactivate_user s' uid)) ident pw now_check now_write ts tok =
        (fst (deactivate_user s' uid), AccountDeactivated))"
proof (intro conjI impI)
  assume "find_user s ident = Some u \<and> \<not> is_active_u u \<and> \<not> is_locked u now_check"
  then show "authenticate H s ident pw now_check now_write ts tok = (s, AccountDeactivated)"
    by (simp add: authenticate_def AccountDeactivated_def)
next
  assume h: "find_user (fst (deactivate_user s' uid)) ident = Some v \<and> id_u v = uid \<and>
    \<not> is_locked v now_check"
  then have "v \<in> set (users (fst (deactivate_user s' uid)))"
    using find_user_SomeD by blast
  with h have "\<not> is_active_u v"
    using deactivate_user_flag by blast
  with h show "authenticate H (fst (deactivate_user s' uid)) ident pw now_check now_write ts tok =
        (fst (deactivate_user s' uid), AccountDeactivated)"
    by (simp add: authenticate_def AccountDeactivated_def)
next
  assume h: "find_user s' ident = Some u' \<and> id_u u' = uid \<and> \<not> is_locked u' now_check"
  then have f: "find_user (fst (deactivate_user s' uid)) ident = Some (deactivate_row uid u')"
    by (simp add: find_user_deactivate_user)
  from h have "\<not> is_active_u (deactivate_row uid u')"
    and "\<not> is_locked (deactivate_row uid u') now_check"
    by (simp_all add: deactivate_row_def is_locked_def)
  with f show "authenticate H (fst (deactivate_user s' uid)) ident pw now_check now_write ts tok =
        (fst (deactivate_user s' uid), AccountDeactivated)"
    by (simp add: authenticate_def AccountDeactivated_def)
qed

theorem deactivated_rejected_witness:
  "find_user example_store ''bob'' = Some bob \<and> \<not> is_active_u bob \<and> \<not> is_locked bob 5 \<and>
   authenticate example_hash example_store ''bob'' ''Secret2!'' 5 6 7 ''tok2''
     = (example_store, AccountDeactivated) \<and>
   find_user (fst (deactivate_user example_store 1)) ''alice''
     = Some (alice\<lparr>is_active_u := False\<rparr>) \<and>
   id_u (alice\<lparr>is_active_u := False\<rparr>) = 1 \<and>
   \<not> is_locked (alice\<lparr>is_active_u := False\<rparr>) 5 \<and>
   find_user example_store ''alice'' = Some alice \<and> id_u alice = 1 \<and> is_active_u alice \<and>
   \<not> is_locked alice 5 \<and>
   authenticate example_hash (fst (deactivate_user example_store 1)) ''alice'' ''Secret1!''
       5 6 7 ''tok2''
     = (fst (deactivate_user example_store 1), AccountDeactivated)"
proof -
  have b: "\<not> is_active_u bob" "\<not> is_locked bob 5"
    by (simp_all add: is_locked_def example_users)
  have f: "find_user (fst (deactivate_user example_store 1)) ''alice''
             = Some (alice\<lparr>is_active_u := False\<rparr>)"
    by (simp add: find_user_defs deactivate_user_def deactivate_row_def example_defs)
  have i: "id_u (alice\<lparr>is_active_u := False\<rparr>) = 1"
    by (simp add: example_users)
  have l: "\<not> is_locked (alice\<lparr>is_active_u := False\<rparr>) 5"
    by (simp add: is_locked_def example_users)
  have a: "id_u alice = 1" "is_active_u alice" "\<not> is_locked alice 5"
    by (simp_all add: is_locked_def example_users)
  note t = deactivated_rejected
         [where H = example_hash and s = example_store and ident = "''bob''" and u = bob
            and now_check = 5 and now_write = 6 and ts = 7 and tok = "''tok2''"
            and pw = "''Secret2!''" and s' = example_store and uid = 1
            and v = "alice\<lparr>is_active_u := False\<rparr>" and u' = alice]
  from t find_bob b
  have 1: "authenticate example_hash example_store ''bob'' ''Secret2!'' 5 6 7 ''tok2''
     = (example_store, AccountDeactivated)"
    by blast
  note t' = deactivated_rejected
         [where H = example_hash and s' = example_store and uid = 1 and ident = "''alice''"
            and v = "alice\<lparr>is_active_u := False\<rparr>" and u' = alice and now_check = 5
            and now_write = 6 and ts = 7 and tok = "''tok2''" and pw = "''Secret1!''"]
  from t' find_alice a
  have 2: "authenticate example_hash (fst (deactivate_user example_store 1)) ''alice''
       ''Secret1!'' 5 6 7 ''tok2''
     = (fst (deactivate_user example_store 1), AccountDeactivated)"
    by blast
  from 1 2 find_bob b f i l find_alice a show ?thesis
    by (intro conjI)
qed

text \<open>
  C3. An identifier that is neither a username nor an email of any row gets the answer
  \<open>InvalidCredentials\<close> for every password, and that is the answer a wrong password gets
  for an account that exists, is active and is not locked: returned value and messages
  shown are the same.
\<close>

theorem unknown_identifier_same_as_wrong_password:
  assumes "\<forall>r \<in> set (users s). username r \<noteq> ident \<and> email r \<noteq> ident"
    and "find_user s ident' = Some u" and "is_active_u u" and "\<not> is_locked u now_check'"
    and "H pw' (salt u) \<noteq> password_hash u"
  shows "snd (authenticate H s ident pw now_check now_write ts tok) = InvalidCredentials \<and>
         snd (authenticate H s ident' pw' now_check' now_write' ts' tok') = InvalidCredentials"
proof -
  have "find_user s ident = None"
    using assms(1) by (simp add: find_user_None_iff)
  then have a: "snd (authenticate H s ident pw now_check now_write ts tok) = InvalidCredentials"
    by (simp add: authenticate_def InvalidCredentials_def)
  have b: "snd (authenticate H s ident' pw' now_check' now_write' ts' tok') = InvalidCredentials"
    using assms(2-5) by (simp add: authenticate_def InvalidCredentials_def Let_def)
  from a b show ?thesis by simp
qed

theorem unknown_identifier_same_as_wrong_password_witness:
  "find_user example_store ''dave'' = None \<and>
   find_user example_store ''alice'' = Some alice \<and> is_active_u alice \<and>
   \<not> is_locked alice 5 \<and> example_hash ''wrong'' (salt alice) \<noteq> password_hash alice \<and>
   snd (authenticate example_hash example_store ''dave'' ''Secret1!'' 5 6 7 ''tok2'')
     = InvalidCredentials \<and>
   snd (authenticate example_hash example_store ''alice'' ''wrong'' 5 6 7 ''tok2'')
     = InvalidCredentials"
proof -
  have a: "is_active_u alice"
    by (simp add: example_users)
  have l: "\<not> is_locked alice 5"
    by (simp add: is_locked_def example_users)
  have w: "example_hash ''wrong'' (salt alice) \<noteq> password_hash alice"
    by (simp add: example_users)
  from unknown_identifier_same_as_wrong_password
         [where H = example_hash and pw' = "''wrong''" and pw = "''Secret1!''"
            and now_check = 5 and now_write = 6 and ts = 7 and tok = "''tok2''"
            and now_write' = 6 and ts' = 7 and tok' = "''tok2''",
          OF find_nobody find_alice a l w]
    find_nobody find_alice a l w
  show ?thesis by (simp add: find_user_None_iff)
qed

subsection \<open>Registration\<close>

text \<open>
  C5. When some row carries the username or the email of a \<open>create_user\<close> call, the call
  answers \<open>DuplicateAccount\<close> and the store is what it was: no row is added to \<open>users\<close>
  or \<open>user_preferences\<close>, and the row that was there is untouched.
\<close>

theorem duplicate_rejected:
  assumes "u \<in> set (users s)" and "username u = name \<or> email u = mail"
  shows "create_user H s name mail pw rl slt ts = (s, DuplicateAccount)"
proof -
  have "\<exists>u \<in> set (users s). username u = name \<or> email u = mail"
    using assms by blast
  then show ?thesis
    by (simp add: create_user_def DuplicateAccount_def)
qed

theorem duplicate_rejected_witness:
  "alice \<in> set (users example_store) \<and>
   (username alice = ''alice'' \<or> email alice = ''other@x.com'') \<and>
   (username alice = ''other'' \<or> email alice = ''alice@x.com'') \<and>
   create_user example_hash example_store ''alice'' ''other@x.com'' ''pw'' GUEST ''s4'' 9
     = (example_store, DuplicateAccount) \<and>
   create_user example_hash example_store ''other'' ''alice@x.com'' ''pw'' GUEST ''s4'' 9
     = (example_store, DuplicateAccount)"
proof -
  have m: "alice \<in> set (users example_store)"
    by (simp add: example_store_def)
  have n: "username alice = ''alice'' \<or> email alice = ''other@x.com''"
    by (simp add: example_users)
  have e: "username alice = ''other'' \<or> email alice = ''alice@x.com''"
    by (simp add: example_users)
  from duplicate_rejected[OF m n] duplicate_rejected[OF m e] m n e show ?thesis
    by (intro conjI)
qed

subsection \<open>Sessions\<close>

text \<open>
  C8. \<open>logout\<close> has no failing branch. It returns the store given with the active flag
  off in every session that carries the token and every other session, and every other
  table, as it was: no session is removed or added. Revoking a token twice leaves the
  store that revoking it once leaves; after one call or two, every session with that
  token is flagged inactive and \<open>validate_session\<close> returns \<open>None\<close> for it.
\<close>

theorem logout_idempotent:
  "logout s tok =
     s\<lparr>sessions := map (\<lambda>x. if session_token x = tok then x\<lparr>is_active_s := False\<rparr> else x)
                       (sessions s)\<rparr> \<and>
   length (sessions (logout s tok)) = length (sessions s) \<and>
   (\<forall>x \<in> set (sessions s).
      (if session_token x = tok then x\<lparr>is_active_s := False\<rparr> else x)
        \<in> set (sessions (logout s tok))) \<and>
   logout (logout s tok) tok = logout s tok \<and>
   (\<forall>x \<in> set (sessions (logout s tok)). session_token x = tok \<longrightarrow> \<not> is_active_s x) \<and>
   snd (validate_session (logout s tok) tok now) = None \<and>
   snd (validate_session (logout (logout s tok) tok) tok now) = None"
proof -
  have e: "invalidate_token tok =
             (\<lambda>x. if session_token x = tok then x\<lparr>is_active_s := False\<rparr> else x)"
    by (rule ext) (simp add: invalidate_token_def)
  have 0: "logout s tok =
     s\<lparr>sessions := map (\<lambda>x. if session_token x = tok then x\<lparr>is_active_s := False\<rparr> else x)
                       (sessions s)\<rparr>"
    unfolding logout_def e ..
  have n: "length (sessions (logout s tok)) = length (sessions s)"
    by (simp add: logout_def)
  have k: "\<forall>x \<in> set (sessions s).
      (if session_token x = tok then x\<lparr>is_active_s := False\<rparr> else x)
        \<in> set (sessions (logout s tok))"
  proof
    fix x assume "x \<in> set (sessions s)"
    then have "invalidate_token tok x \<in> invalidate_token tok ` set (sessions s)"
      by (rule imageI)
    then have "invalidate_token tok x \<in> set (sessions (logout s tok))"
      by (simp add: logout_def)
    then show "(if session_token x = tok then x\<lparr>is_active_s := False\<rparr> else x)
        \<in> set (sessions (logout s tok))"
      by (simp only: invalidate_token_def)
  qed
  have 1: "logout (logout s tok) tok = logout s tok"
    by (simp add: logout_def comp_def invalidate_token_idem)
  have 2: "\<forall>x \<in> set (sessions (logout s tok)). session_token x = tok \<longrightarrow> \<not> is_active_s x"
  proof (intro ballI impI)
    fix x assume "x \<in> set (sessions (logout s tok))" and t: "session_token x = tok"
    then obtain y where "x = invalidate_token tok y"
      by (auto simp add: logout_def)
    with t show "\<not> is_active_s x"
      using invalidate_token_inactive[of tok y] by simp
  qed
  have 3: "snd (validate_session (logout s tok) tok now) = None"
    by (simp add: validate_session_def select_session_logout)
  have 4: "snd (validate_session (logout (logout s tok) tok) tok now) = None"
    by (simp only: 1 3)
  from 0 n k 1 2 3 4 show ?thesis
    by (intro conjI)
qed

theorem logout_idempotent_witness:
  "alice_session \<in> set (sessions example_store) \<and>
   session_token alice_session = ''tok1'' \<and> is_active_s alice_session \<and>
   logout example_store ''tok1'' =
     example_store\<lparr>sessions := [alice_session\<lparr>is_active_s := False\<rparr>]\<rparr> \<and>
   alice_session\<lparr>is_active_s := False\<rparr> \<in> set (sessions (logout example_store ''tok1'')) \<and>
   session_token (alice_session\<lparr>is_active_s := False\<rparr>) = ''tok1'' \<and>
   \<not> is_active_s (alice_session\<lparr>is_active_s := False\<rparr>) \<and>
   logout (logout example_store ''tok1'') ''tok1'' = logout example_store ''tok1'' \<and>
   snd (validate_session (logout (logout example_store ''tok1'') ''tok1'') ''tok1'' 5) = None"
proof -
  have m: "alice_session \<in> set (sessions example_store)"
    by (simp add: example_store_def)
  have t: "session_token alice_session = ''tok1''" "is_active_s alice_session"
    by (simp_all add: alice_session_def new_session_def)
  have i: "map (\<lambda>x. if session_token x = ''tok1'' then x\<lparr>is_active_s := False\<rparr> else x)
              (sessions example_store) = [alice_session\<lparr>is_active_s := False\<rparr>]"
    by (simp add: example_defs)
  note th = logout_idempotent[of example_store "''tok1''" 5]
  from th have "logout example_store ''tok1'' =
     example_store\<lparr>sessions :=
       map (\<lambda>x. if session_token x = ''tok1'' then x\<lparr>is_active_s := False\<rparr> else x)
         (sessions example_store)\<rparr>"
    by (rule conjunct1)
  then have 0: "logout example_store ''tok1'' =
     example_store\<lparr>sessions := [alice_session\<lparr>is_active_s := False\<rparr>]\<rparr>"
    by (simp only: i)
  have 1: "alice_session\<lparr>is_active_s := False\<rparr> \<in> set (sessions (logout example_store ''tok1''))"
    by (simp add: 0)
  have 2: "session_token (alice_session\<lparr>is_active_s := False\<rparr>) = ''tok1''"
    "\<not> is_active_s (alice_session\<lparr>is_active_s := False\<rparr>)"
    by (simp_all add: alice_session_def new_session_def)
  from th have 3: "logout (logout example_store ''tok1'') ''tok1'' = logout example_store ''tok1''"
    and 4: "snd (validate_session (logout (logout example_store ''tok1'') ''tok1'') ''tok1'' 5)
              = None"
    by blast+
  from m t 0 1 2 3 4 show ?thesis
    by (intro conjI)
qed

text \<open>
  C4. On a store that meets the schema's constraints on \<open>sessions\<close>, \<open>validate_session\<close>
  returns \<open>None\<close> when no session carries the token, when the session that carries it is
  flagged inactive, and when the clock reading is past that session's expiry. When the
  session is past its expiry and still flagged active, the store returned has that session
  flagged inactive and is otherwise the store given. These constraints hold in every store a run
  reaches from the empty one (\<open>sessions_wf_reachable\<close>). A token is never the empty
  string: \<open>secrets.token_urlsafe (32)\<close> has 43 characters.
\<close>

theorem validate_session_fails_closed:
  assumes "sessions_wf s"
  shows "((\<forall>x \<in> set (sessions s). session_token x \<noteq> tok) \<longrightarrow>
            validate_session s tok now = (s, None)) \<and>
         (\<forall>x \<in> set (sessions s). session_token x = tok \<and> \<not> is_active_s x \<longrightarrow>
            validate_session s tok now = (s, None)) \<and>
         (\<forall>x \<in> set (sessions s). session_token x = tok \<and> expires_at x < now \<longrightarrow>
            snd (validate_session s tok now) = None) \<and>
         (\<forall>x \<in> set (sessions s).
            session_token x = tok \<and> tok \<noteq> [] \<and> is_active_s x \<and> expires_at x < now \<longrightarrow>
            validate_session s tok now =
              (s\<lparr>sessions := map (invalidate_token tok) (sessions s)\<rparr>, None) \<and>
            x\<lparr>is_active_s := False\<rparr> \<in> set (sessions (fst (validate_session s tok now))))"
proof -
  from assms have d: "distinct (map session_token (sessions s))"
    by (simp add: sessions_wf_def)
  have a: "validate_session s tok now = (s, None)"
    if "\<forall>x \<in> set (sessions s). session_token x \<noteq> tok"
    using select_session_unknown[OF that] by (simp add: validate_session_def)
  have b: "validate_session s tok now = (s, None)"
    if "x \<in> set (sessions s)" "session_token x = tok" "\<not> is_active_s x" for x
    using select_session_inactive[OF d that] by (simp add: validate_session_def)
  have c: "validate_session s tok now =
             (s\<lparr>sessions := map (invalidate_token tok) (sessions s)\<rparr>, None) \<and>
           x\<lparr>is_active_s := False\<rparr> \<in> set (sessions (fst (validate_session s tok now)))"
    if "x \<in> set (sessions s)" "session_token x = tok" "tok \<noteq> []" "is_active_s x"
       "expires_at x < now" for x
  proof -
    from select_session_active[OF assms that(1,2,4)]
    obtain u where "select_session s tok = Some (x, u)" by blast
    with that(3,5) have v: "validate_session s tok now =
        (s\<lparr>sessions := map (invalidate_token tok) (sessions s)\<rparr>, None)"
      by (simp add: validate_session_def)
    have "invalidate_token tok x \<in> invalidate_token tok ` set (sessions s)"
      using that(1) by (rule imageI)
    moreover have "invalidate_token tok x = x\<lparr>is_active_s := False\<rparr>"
      using that(2) by (simp add: invalidate_token_def)
    ultimately show ?thesis using v by simp
  qed
  have e: "snd (validate_session s tok now) = None"
    if "x \<in> set (sessions s)" "session_token x = tok" "expires_at x < now" for x
  proof (cases "tok = []")
    case True
    then show ?thesis by (simp add: validate_session_def)
  next
    case False
    show ?thesis
    proof (cases "is_active_s x")
      case True
      with c[OF that(1,2) False True that(3)] show ?thesis by simp
    next
      case False
      with b[OF that(1,2)] show ?thesis by simp
    qed
  qed
  show ?thesis
  proof (intro conjI ballI impI)
    assume "\<forall>x \<in> set (sessions s). session_token x \<noteq> tok"
    then show "validate_session s tok now = (s, None)" by (rule a)
  next
    fix x assume "x \<in> set (sessions s)" and "session_token x = tok \<and> \<not> is_active_s x"
    then show "validate_session s tok now = (s, None)" using b[of x] by simp
  next
    fix x assume "x \<in> set (sessions s)" and "session_token x = tok \<and> expires_at x < now"
    then show "snd (validate_session s tok now) = None" using e[of x] by simp
  next
    fix x assume "x \<in> set (sessions s)"
      and "session_token x = tok \<and> tok \<noteq> [] \<and> is_active_s x \<and> expires_at x < now"
    then show "validate_session s tok now =
        (s\<lparr>sessions := map (invalidate_token tok) (sessions s)\<rparr>, None)"
      using c[of x] by simp
  next
    fix x assume m: "x \<in> set (sessions s)"
      and h: "session_token x = tok \<and> tok \<noteq> [] \<and> is_active_s x \<and> expires_at x < now"
    from h have "session_token x = tok" and "tok \<noteq> []" and "is_active_s x"
      and "expires_at x < now" by simp_all
    from c[OF m this]
    show "x\<lparr>is_active_s := False\<rparr> \<in> set (sessions (fst (validate_session s tok now)))"
      by (rule conjunct2)
  qed
qed

theorem validate_session_fails_closed_witness:
  "alice_session \<in> set (sessions example_store) \<and>
   session_token alice_session = ''tok1'' \<and> ''tok1'' \<noteq> [] \<and>
   is_active_s alice_session \<and> expires_at alice_session < 28800000001 \<and>
   validate_session example_store ''never'' 28800000001 = (example_store, None) \<and>
   validate_session example_store ''tok1'' 28800000001 =
     (example_store\<lparr>sessions := [alice_session\<lparr>is_active_s := False\<rparr>]\<rparr>, None)"
proof -
  have m: "alice_session \<in> set (sessions example_store)"
    by (simp add: example_store_def)
  have t: "session_token alice_session = ''tok1''" and a: "is_active_s alice_session"
    and x: "expires_at alice_session < 28800000001"
    by (simp_all add: alice_session_def new_session_def)
  have n: "\<forall>x \<in> set (sessions example_store). session_token x \<noteq> ''never''"
    by (simp add: example_defs)
  have i: "map (invalidate_token ''tok1'') (sessions example_store)
             = [alice_session\<lparr>is_active_s := False\<rparr>]"
    by (simp add: invalidate_token_def example_defs)
  from validate_session_fails_closed[OF example_store_wf, of "''never''" 28800000001] n
  have 1: "validate_session example_store ''never'' 28800000001 = (example_store, None)"
    by blast
  from validate_session_fails_closed[OF example_store_wf, of "''tok1''" 28800000001] m t a x
  have 2: "validate_session example_store ''tok1'' 28800000001 =
     (example_store\<lparr>sessions := map (invalidate_token ''tok1'') (sessions example_store)\<rparr>, None)"
    by blast
  from 1 2 i m t a x show ?thesis
    by simp
qed


subsection \<open>Lockout\<close>

lemma five_wrong_passwords:
  assumes "find_user s ident = Some u" and "failed_login_attempts u = 0"
    and "is_active_u u" and "\<not> is_locked u nca"
    and "H pwa (salt u) \<noteq> password_hash u" and "H pwb (salt u) \<noteq> password_hash u"
    and "H pwc (salt u) \<noteq> password_hash u" and "H pwd (salt u) \<noteq> password_hash u"
    and "H pwe (salt u) \<noteq> password_hash u"
  shows "find_user (authenticate_all H s ident
            [(pwa, nca, nwa, tsa, tka), (pwb, ncb, nwb, tsb, tkb), (pwc, ncc, nwc, tsc, tkc),
             (pwd, ncd, nwd, tsd, tkd), (pwe, nce, nwe, tse, tke)]) ident =
           Some (u\<lparr>failed_login_attempts := 5,
                   locked_until := Some (nwe + timedelta_minutes 30)\<rparr>) \<and>
         (ncf < nwe + timedelta_minutes 30 \<longrightarrow>
          authenticate H (authenticate_all H s ident
            [(pwa, nca, nwa, tsa, tka), (pwb, ncb, nwb, tsb, tkb), (pwc, ncc, nwc, tsc, tkc),
             (pwd, ncd, nwd, tsd, tkd), (pwe, nce, nwe, tse, tke)]) ident pwf ncf nwf tsf tkf =
          (authenticate_all H s ident
            [(pwa, nca, nwa, tsa, tka), (pwb, ncb, nwb, tsb, tkb), (pwc, ncc, nwc, tsc, tkc),
             (pwd, ncd, nwd, tsd, tkd), (pwe, nce, nwe, tse, tke)], AccountLocked))"
proof -
  define s1 where "s1 = fst (authenticate H s ident pwa nca nwa tsa tka)"
  define s2 where "s2 = fst (authenticate H s1 ident pwb ncb nwb tsb tkb)"
  define s3 where "s3 = fst (authenticate H s2 ident pwc ncc nwc tsc tkc)"
  define s4 where "s4 = fst (authenticate H s3 ident pwd ncd nwd tsd tkd)"
  define s5 where "s5 = fst (authenticate H s4 ident pwe nce nwe tse tke)"
  have all: "authenticate_all H s ident
            [(pwa, nca, nwa, tsa, tka), (pwb, ncb, nwb, tsb, tkb), (pwc, ncc, nwc, tsc, tkc),
             (pwd, ncd, nwd, tsd, tkd), (pwe, nce, nwe, tse, tke)] = s5"
    by (simp add: s1_def s2_def s3_def s4_def s5_def)
  have f1: "find_user s1 ident = Some (u\<lparr>failed_login_attempts := 1, locked_until := None\<rparr>)"
    using wrong_password_step(2)[where H = H and pw = pwa and w = nwa and ts = tsa and tok = tka,
            OF assms(1,3,4,5)] assms(2)
    by (simp add: s1_def)
  have f2: "find_user s2 ident = Some (u\<lparr>failed_login_attempts := 2, locked_until := None\<rparr>)"
    using wrong_password_unlocked[where H = H and pw = pwb and c = ncb and w = nwb and ts = tsb
            and tok = tkb, OF f1 assms(3,6)] by (simp add: s2_def)
  have f3: "find_user s3 ident = Some (u\<lparr>failed_login_attempts := 3, locked_until := None\<rparr>)"
    using wrong_password_unlocked[where H = H and pw = pwc and c = ncc and w = nwc and ts = tsc
            and tok = tkc, OF f2 assms(3,7)] by (simp add: s3_def)
  have f4: "find_user s4 ident = Some (u\<lparr>failed_login_attempts := 4, locked_until := None\<rparr>)"
    using wrong_password_unlocked[where H = H and pw = pwd and c = ncd and w = nwd and ts = tsd
            and tok = tkd, OF f3 assms(3,8)] by (simp add: s4_def)
  have f5: "find_user s5 ident =
              Some (u\<lparr>failed_login_attempts := 5,
                      locked_until := Some (nwe + timedelta_minutes 30)\<rparr>)"
    using wrong_password_unlocked[where H = H and pw = pwe and c = nce and w = nwe and ts = tse
            and tok = tke, OF f4 assms(3,9)] by (simp add: s5_def)
  have six: "authenticate H s5 ident pwf ncf nwf tsf tkf = (s5, AccountLocked)"
    if "ncf < nwe + timedelta_minutes 30"
    using f5 that by (simp add: authenticate_def is_locked_def AccountLocked_def)
  from f5 six show ?thesis
    unfolding all by blast
qed



text \<open>
  C1, as the code has it. In every store the operations can reach, for an account that is
  active and has a failed-attempt count of 0, five consecutive \<open>authenticate\<close> calls
  with a wrong password leave the count at 5 and the lockout expiry at the write-time
  clock reading of the fifth call plus thirty minutes; a sixth call whose clock reading is
  before that expiry answers \<open>AccountLocked\<close> for every password, the right one included,
  and changes nothing. The attempts are named \<open>a\<close> to \<open>f\<close>: \<open>pwa\<close> is the password of
  the first, \<open>nca\<close> and \<open>nwa\<close> its two clock readings, \<open>tsa\<close> its timestamp, \<open>tka\<close>
  its token.
\<close>

theorem five_failures_lock_account:
  assumes "s = foldl (exec H) empty_store cls"
    and "find_user s ident = Some u" and "failed_login_attempts u = 0" and "is_active_u u"
    and "H pwa (salt u) \<noteq> password_hash u" and "H pwb (salt u) \<noteq> password_hash u"
    and "H pwc (salt u) \<noteq> password_hash u" and "H pwd (salt u) \<noteq> password_hash u"
    and "H pwe (salt u) \<noteq> password_hash u"
  shows "find_user (authenticate_all H s ident
            [(pwa, nca, nwa, tsa, tka), (pwb, ncb, nwb, tsb, tkb), (pwc, ncc, nwc, tsc, tkc),
             (pwd, ncd, nwd, tsd, tkd), (pwe, nce, nwe, tse, tke)]) ident =
           Some (u\<lparr>failed_login_attempts := 5,
                   locked_until := Some (nwe + timedelta_minutes 30)\<rparr>) \<and>
         (ncf < nwe + timedelta_minutes 30 \<longrightarrow>
          authenticate H (authenticate_all H s ident
            [(pwa, nca, nwa, tsa, tka), (pwb, ncb, nwb, tsb, tkb), (pwc, ncc, nwc, tsc, tkc),
             (pwd, ncd, nwd, tsd, tkd), (pwe, nce, nwe, tse, tke)]) ident pwf ncf nwf tsf tkf =
          (authenticate_all H s ident
            [(pwa, nca, nwa, tsa, tka), (pwb, ncb, nwb, tsb, tkb), (pwc, ncc, nwc, tsc, tkc),
             (pwd, ncd, nwd, tsd, tkd), (pwe, nce, nwe, tse, tke)], AccountLocked))"
proof -
  from assms(1,2) have "find_user (foldl (exec H) empty_store cls) ident = Some u"
    by simp
  then have n: "\<not> is_locked u nca"
    using assms(3) by (rule count_zero_not_locked)
  from five_wrong_passwords
         [where H = H and pwa = pwa and pwb = pwb and pwc = pwc and pwd = pwd and pwe = pwe,
          OF assms(2,3,4) n assms(5-9)]
  show ?thesis .
qed

theorem five_failures_lock_account_witness:
  "example_store = foldl (exec example_hash) empty_store example_run \<and>
   find_user example_store ''alice'' = Some alice \<and> failed_login_attempts alice = 0 \<and>
   is_active_u alice \<and>
   example_hash ''wrong'' (salt alice) \<noteq> password_hash alice \<and>
   example_hash ''Secret1!'' (salt alice) = password_hash alice \<and>
   find_user (authenticate_all example_hash example_store ''alice''
      [(''wrong'', 1, 1, 1, ''k1''), (''wrong'', 2, 2, 2, ''k2''), (''wrong'', 3, 3, 3, ''k3''),
       (''wrong'', 4, 4, 4, ''k4''), (''wrong'', 5, 5, 5, ''k5'')]) ''alice'' =
     Some (alice\<lparr>failed_login_attempts := 5, locked_until := Some 1800000005\<rparr>) \<and>
   (1800000004::int) < 5 + timedelta_minutes 30 \<and>
   authenticate example_hash (authenticate_all example_hash example_store ''alice''
      [(''wrong'', 1, 1, 1, ''k1''), (''wrong'', 2, 2, 2, ''k2''), (''wrong'', 3, 3, 3, ''k3''),
       (''wrong'', 4, 4, 4, ''k4''), (''wrong'', 5, 5, 5, ''k5'')])
      ''alice'' ''Secret1!'' 1800000004 1800000004 6 ''k6'' =
     (authenticate_all example_hash example_store ''alice''
      [(''wrong'', 1, 1, 1, ''k1''), (''wrong'', 2, 2, 2, ''k2''), (''wrong'', 3, 3, 3, ''k3''),
       (''wrong'', 4, 4, 4, ''k4''), (''wrong'', 5, 5, 5, ''k5'')], AccountLocked)"
proof -
  have r: "example_store = foldl (exec example_hash) empty_store example_run"
    by (rule example_store_reachable[symmetric])
  have z: "failed_login_attempts alice = 0" and a: "is_active_u alice"
    and w: "example_hash ''wrong'' (salt alice) \<noteq> password_hash alice"
    and c: "example_hash ''Secret1!'' (salt alice) = password_hash alice"
    by (simp_all add: example_users)
  have t: "(1800000004::int) < 5 + timedelta_minutes 30"
    by (simp add: timedelta_minutes_def)
  from five_failures_lock_account
         [where H = example_hash and s = example_store and cls = example_run
            and ident = "''alice''" and u = alice
            and pwa = "''wrong''" and pwb = "''wrong''" and pwc = "''wrong''"
            and pwd = "''wrong''" and pwe = "''wrong''"
            and nca = 1 and nwa = 1 and tsa = 1 and tka = "''k1''"
            and ncb = 2 and nwb = 2 and tsb = 2 and tkb = "''k2''"
            and ncc = 3 and nwc = 3 and tsc = 3 and tkc = "''k3''"
            and ncd = 4 and nwd = 4 and tsd = 4 and tkd = "''k4''"
            and nce = 5 and nwe = 5 and tse = 5 and tke = "''k5''"
            and pwf = "''Secret1!''" and ncf = 1800000004 and nwf = 1800000004 and tsf = 6
            and tkf = "''k6''",
          OF r find_alice z a w w w w w] t
  have "find_user (authenticate_all example_hash example_store ''alice''
      [(''wrong'', 1, 1, 1, ''k1''), (''wrong'', 2, 2, 2, ''k2''), (''wrong'', 3, 3, 3, ''k3''),
       (''wrong'', 4, 4, 4, ''k4''), (''wrong'', 5, 5, 5, ''k5'')]) ''alice'' =
     Some (alice\<lparr>failed_login_attempts := 5, locked_until := Some (5 + timedelta_minutes 30)\<rparr>)"
    and "authenticate example_hash (authenticate_all example_hash example_store ''alice''
      [(''wrong'', 1, 1, 1, ''k1''), (''wrong'', 2, 2, 2, ''k2''), (''wrong'', 3, 3, 3, ''k3''),
       (''wrong'', 4, 4, 4, ''k4''), (''wrong'', 5, 5, 5, ''k5'')])
      ''alice'' ''Secret1!'' 1800000004 1800000004 6 ''k6'' =
     (authenticate_all example_hash example_store ''alice''
      [(''wrong'', 1, 1, 1, ''k1''), (''wrong'', 2, 2, 2, ''k2''), (''wrong'', 3, 3, 3, ''k3''),
       (''wrong'', 4, 4, 4, ''k4''), (''wrong'', 5, 5, 5, ''k5'')], AccountLocked)"
    by blast+
  moreover have "5 + timedelta_minutes 30 = (1800000005::int)"
    by (simp add: timedelta_minutes_def)
  ultimately show ?thesis
    using r find_alice z a w c t by simp
qed

text \<open>
  The claim as written speaks of every account with a count of 0. A deactivated account
  with a count of 0 is turned away before the password is looked at: after five wrong
  passwords no expiry is set, and the sixth call is not answered with \<open>AccountLocked\<close>.
\<close>

theorem five_failures_deactivated_counterexample:
  "foldl (exec example_hash) empty_store example_run = example_store \<and>
   find_user example_store ''bob'' = Some bob \<and> failed_login_attempts bob = 0 \<and>
   example_hash ''wrong'' (salt bob) \<noteq> password_hash bob \<and>
   example_hash ''Secret2!'' (salt bob) = password_hash bob \<and>
   find_user (authenticate_all example_hash example_store ''bob''
      [(''wrong'', 1, 1, 1, ''k1''), (''wrong'', 2, 2, 2, ''k2''), (''wrong'', 3, 3, 3, ''k3''),
       (''wrong'', 4, 4, 4, ''k4''), (''wrong'', 5, 5, 5, ''k5'')]) ''bob'' = Some bob \<and>
   locked_until bob \<noteq> Some (5 + timedelta_minutes 30) \<and>
   snd (authenticate example_hash (authenticate_all example_hash example_store ''bob''
      [(''wrong'', 1, 1, 1, ''k1''), (''wrong'', 2, 2, 2, ''k2''), (''wrong'', 3, 3, 3, ''k3''),
       (''wrong'', 4, 4, 4, ''k4''), (''wrong'', 5, 5, 5, ''k5'')])
      ''bob'' ''Secret2!'' 6 6 6 ''k6'') \<noteq> AccountLocked"
proof -
  have all: "authenticate_all example_hash example_store ''bob''
      [(''wrong'', 1, 1, 1, ''k1''), (''wrong'', 2, 2, 2, ''k2''), (''wrong'', 3, 3, 3, ''k3''),
       (''wrong'', 4, 4, 4, ''k4''), (''wrong'', 5, 5, 5, ''k5'')] = example_store"
    by (simp add: bob_rejected)
  have b: "failed_login_attempts bob = 0"
    "example_hash ''wrong'' (salt bob) \<noteq> password_hash bob"
    "example_hash ''Secret2!'' (salt bob) = password_hash bob"
    "locked_until bob \<noteq> Some (5 + timedelta_minutes 30)"
    by (simp_all add: example_users)
  have d: "AccountDeactivated \<noteq> AccountLocked"
    by (simp add: AccountDeactivated_def AccountLocked_def)
  from all b d find_bob example_store_reachable show ?thesis
    by (simp add: bob_rejected)
qed


text \<open>
  C2, as the code has it. In every state of the store, so after every sequence of
  operations, a call of \<open>authenticate\<close> that succeeds leaves the account it returns with
  a failed-attempt count of 0 and no lockout expiry. An expiry that has elapsed is not
  cleared by elapsing. It stops blocking: the call is not answered with \<open>AccountLocked\<close>.
  It stays stored: a call other than \<open>authenticate\<close> leaves the expiry of every row as it
  was, and an \<open>authenticate\<close> call leaves every row as it was whose id is not that of
  the account its identifier resolves to.
\<close>

theorem success_resets_counter_and_lock:
  "(fst (snd (authenticate H s ident pw c w ts tok)) = Some info \<longrightarrow>
      (\<exists>u'. find_user (fst (authenticate H s ident pw c w ts tok)) ident = Some u' \<and>
            id_u u' = ui_user_id info \<and>
            failed_login_attempts u' = 0 \<and> locked_until u' = None) \<and>
      (\<forall>r \<in> set (users (fst (authenticate H s ident pw c w ts tok))).
         id_u r = ui_user_id info \<longrightarrow>
         failed_login_attempts r = 0 \<and> locked_until r = None)) \<and>
   (find_user s ident = Some u \<and> locked_until u = Some l \<and> l \<le> c \<longrightarrow>
      snd (authenticate H s ident pw c w ts tok) \<noteq> AccountLocked) \<and>
   ((\<forall>i p a b t k. cl \<noteq> Authenticate i p a b t k) \<longrightarrow>
      map locked_until (take (length (users s)) (users (exec H s cl))) =
        map locked_until (users s)) \<and>
   (r \<in> set (users s) \<and> map_option id_u (find_user s ident) \<noteq> Some (id_u r) \<longrightarrow>
      r \<in> set (users (fst (authenticate H s ident pw c w ts tok))))"
proof -
  have a: "\<exists>u'. find_user (fst (authenticate H s ident pw c w ts tok)) ident = Some u' \<and>
            id_u u' = ui_user_id info \<and>
            failed_login_attempts u' = 0 \<and> locked_until u' = None"
    if ok: "fst (snd (authenticate H s ident pw c w ts tok)) = Some info"
  proof -
    from ok obtain v where fv: "find_user s ident = Some v" and iv: "ui_user_id info = id_u v"
      and us: "users (fst (authenticate H s ident pw c w ts tok)) =
                 map (record_success (id_u v) ts) (users s)"
      by (rule authenticate_success)
    have "find_user (fst (authenticate H s ident pw c w ts tok)) ident =
            map_option (record_success (id_u v) ts) (find_user s ident)"
      using us by (rule find_user_map) (simp add: record_success_def)
    then have "find_user (fst (authenticate H s ident pw c w ts tok)) ident =
            Some (record_success (id_u v) ts v)"
      using fv by simp
    moreover have "id_u (record_success (id_u v) ts v) = ui_user_id info"
      and "failed_login_attempts (record_success (id_u v) ts v) = 0"
      and "locked_until (record_success (id_u v) ts v) = None"
      using iv by (simp_all add: record_success_def)
    ultimately show ?thesis by blast
  qed
  have b: "\<forall>r \<in> set (users (fst (authenticate H s ident pw c w ts tok))).
         id_u r = ui_user_id info \<longrightarrow>
         failed_login_attempts r = 0 \<and> locked_until r = None"
    if ok: "fst (snd (authenticate H s ident pw c w ts tok)) = Some info"
  proof (intro ballI impI)
    fix x
    assume m: "x \<in> set (users (fst (authenticate H s ident pw c w ts tok)))"
      and i: "id_u x = ui_user_id info"
    from ok obtain v where "find_user s ident = Some v" and iv: "ui_user_id info = id_u v"
      and us: "users (fst (authenticate H s ident pw c w ts tok)) =
                 map (record_success (id_u v) ts) (users s)"
      by (rule authenticate_success)
    from m us have "x \<in> record_success (id_u v) ts ` set (users s)"
      by simp
    then obtain x0 where x: "x = record_success (id_u v) ts x0"
      by (rule imageE)
    have "id_u (record_success (id_u v) ts x0) = id_u x0"
      by (simp add: record_success_def)
    with x i iv have "id_u x0 = id_u v"
      by simp
    with x show "failed_login_attempts x = 0 \<and> locked_until x = None"
      by (simp add: record_success_def)
  qed
  have e: "snd (authenticate H s ident pw c w ts tok) \<noteq> AccountLocked"
    if "find_user s ident = Some u \<and> locked_until u = Some l \<and> l \<le> c"
    using that elapsed_lock_not_locked(1)[of s ident u l c H pw w ts tok] by simp
  have k: "map locked_until (take (length (users s)) (users (exec H s cl))) =
        map locked_until (users s)"
    if "\<forall>i p a b t k. cl \<noteq> Authenticate i p a b t k"
    using that by (rule locked_until_kept_exec)
  have o: "r \<in> set (users (fst (authenticate H s ident pw c w ts tok)))"
    if "r \<in> set (users s) \<and> map_option id_u (find_user s ident) \<noteq> Some (id_u r)"
  proof -
    from that have "r \<in> set (users s)"
      and "map_option id_u (find_user s ident) \<noteq> Some (id_u r)"
      by simp_all
    then show ?thesis by (rule authenticate_keeps_other_rows)
  qed
  show ?thesis
  proof (intro conjI impI)
    assume "fst (snd (authenticate H s ident pw c w ts tok)) = Some info"
    then show "\<exists>u'. find_user (fst (authenticate H s ident pw c w ts tok)) ident = Some u' \<and>
            id_u u' = ui_user_id info \<and>
            failed_login_attempts u' = 0 \<and> locked_until u' = None"
      by (rule a)
  next
    assume "fst (snd (authenticate H s ident pw c w ts tok)) = Some info"
    then show "\<forall>r \<in> set (users (fst (authenticate H s ident pw c w ts tok))).
         id_u r = ui_user_id info \<longrightarrow>
         failed_login_attempts r = 0 \<and> locked_until r = None"
      by (rule b)
  next
    assume "find_user s ident = Some u \<and> locked_until u = Some l \<and> l \<le> c"
    then show "snd (authenticate H s ident pw c w ts tok) \<noteq> AccountLocked"
      by (rule e)
  next
    assume "\<forall>i p a b t k. cl \<noteq> Authenticate i p a b t k"
    then show "map locked_until (take (length (users s)) (users (exec H s cl))) =
        map locked_until (users s)"
      by (rule k)
  next
    assume "r \<in> set (users s) \<and> map_option id_u (find_user s ident) \<noteq> Some (id_u r)"
    then show "r \<in> set (users (fst (authenticate H s ident pw c w ts tok)))"
      by (rule o)
  qed
qed

theorem success_resets_counter_and_lock_witness:
  "fst (snd (authenticate example_hash example_store ''carol'' ''Secret3!''
               1800000000 1800000001 7 ''tok2'')) =
     Some \<lparr>ui_user_id = 3, ui_username = ''carol'', ui_email = ''carol@x.com'',
           ui_role = ANALYST, ui_session_token = Some ''tok2'',
           ui_permissions = permissionsFor ANALYST\<rparr> \<and>
   find_user example_store ''carol'' = Some carol \<and>
   locked_until carol = Some 1800000000 \<and> (1800000000::int) \<le> 1800000000 \<and>
   find_user (fst (authenticate example_hash example_store ''carol'' ''Secret3!''
                     1800000000 1800000001 7 ''tok2'')) ''carol'' =
     Some (carol\<lparr>failed_login_attempts := 0, locked_until := None, last_login := Some 7\<rparr>) \<and>
   snd (authenticate example_hash example_store ''carol'' ''Secret3!''
          1800000000 1800000001 7 ''tok2'') \<noteq> AccountLocked \<and>
   map locked_until (take (length (users example_store))
       (users (exec example_hash example_store (Deactivate_user 3)))) =
     [None, None, Some 1800000000] \<and>
   carol \<in> set (users example_store) \<and>
   map_option id_u (find_user example_store ''carol'') \<noteq> Some (id_u alice) \<and>
   alice \<in> set (users (fst (authenticate example_hash example_store ''carol'' ''Secret3!''
                                1800000000 1800000001 7 ''tok2'')))"
proof -
  have a: "authenticate example_hash example_store ''carol'' ''Secret3!''
             1800000000 1800000001 7 ''tok2'' =
           (example_store
              \<lparr>users := map (record_success 3 7) (users example_store),
               sessions := sessions example_store @
                 [new_session (next_id (map id_s (sessions example_store))) 3 ''tok2'' 7
                    (1800000001 + session_timeout)]\<rparr>,
            Some \<lparr>ui_user_id = 3, ui_username = ''carol'', ui_email = ''carol@x.com'',
                  ui_role = ANALYST, ui_session_token = Some ''tok2'',
                  ui_permissions = permissionsFor ANALYST\<rparr>, [])"
    by (simp add: authenticate_def find_user_defs is_locked_def example_defs)
  have f: "find_user (example_store
              \<lparr>users := map (record_success 3 7) (users example_store),
               sessions := sessions example_store @
                 [new_session (next_id (map id_s (sessions example_store))) 3 ''tok2'' 7
                    (1800000001 + session_timeout)]\<rparr>) ''carol'' =
     Some (carol\<lparr>failed_login_attempts := 0, locked_until := None, last_login := Some 7\<rparr>)"
    by (simp add: find_user_defs record_success_def example_defs)
  have c: "locked_until carol = Some 1800000000"
    by (simp add: example_users)
  have m: "carol \<in> set (users example_store)" "alice \<in> set (users example_store)"
    by (simp_all add: example_store_def)
  have d: "map_option id_u (find_user example_store ''carol'') \<noteq> Some (id_u alice)"
    by (simp add: find_carol example_users)
  have n: "\<forall>i p a b t k. Deactivate_user 3 \<noteq> Authenticate i p a b t k"
    by simp
  have v: "map locked_until (users example_store) = [None, None, Some 1800000000]"
    by (simp add: example_defs)
  note th = success_resets_counter_and_lock
         [where H = example_hash and s = example_store and ident = "''carol''"
            and pw = "''Secret3!''" and c = 1800000000 and w = 1800000001 and ts = 7
            and tok = "''tok2''" and u = carol and l = 1800000000
            and cl = "Deactivate_user 3" and r = alice]
  from th n have 1: "map locked_until (take (length (users example_store))
       (users (exec example_hash example_store (Deactivate_user 3)))) =
     map locked_until (users example_store)"
    by blast
  from th m(2) d
  have 2: "alice \<in> set (users (fst (authenticate example_hash example_store ''carol''
             ''Secret3!'' 1800000000 1800000001 7 ''tok2'')))"
    by blast
  from th find_carol c
  have 3: "snd (authenticate example_hash example_store ''carol'' ''Secret3!''
          1800000000 1800000001 7 ''tok2'') \<noteq> AccountLocked"
    by simp
  have 4: "fst (snd (authenticate example_hash example_store ''carol'' ''Secret3!''
               1800000000 1800000001 7 ''tok2'')) =
     Some \<lparr>ui_user_id = 3, ui_username = ''carol'', ui_email = ''carol@x.com'',
           ui_role = ANALYST, ui_session_token = Some ''tok2'',
           ui_permissions = permissionsFor ANALYST\<rparr>"
    by (simp add: a)
  have 5: "find_user (fst (authenticate example_hash example_store ''carol'' ''Secret3!''
                     1800000000 1800000001 7 ''tok2'')) ''carol'' =
     Some (carol\<lparr>failed_login_attempts := 0, locked_until := None, last_login := Some 7\<rparr>)"
    by (simp add: a f)
  have 6: "(1800000000::int) \<le> 1800000000"
    by simp
  from 4 find_carol c 6 5 3 1[unfolded v] m(1) d 2 show ?thesis
    by (intro conjI)
qed

text \<open>
  The claim as written has no account keep an expiry that has passed. Nothing in the
  module clears one when it passes: after a login of \<open>alice\<close> at a time past
  \<open>carol\<close>'s expiry, \<open>carol\<close>'s row carries the same expiry.
\<close>

theorem stale_lock_counterexample:
  "foldl (exec example_hash) empty_store example_run = example_store \<and>
   find_user example_store ''carol'' = Some carol \<and>
   locked_until carol = Some 1800000000 \<and> (1800000000::int) < 2000000000 \<and>
   fst (snd (authenticate example_hash example_store ''alice'' ''Secret1!''
               2000000000 2000000000 7 ''tok2'')) \<noteq> None \<and>
   find_user (fst (authenticate example_hash example_store ''alice'' ''Secret1!''
                     2000000000 2000000000 7 ''tok2'')) ''carol'' = Some carol"
proof -
  have a: "authenticate example_hash example_store ''alice'' ''Secret1!''
             2000000000 2000000000 7 ''tok2'' =
           (example_store
              \<lparr>users := map (record_success 1 7) (users example_store),
               sessions := sessions example_store @
                 [new_session (next_id (map id_s (sessions example_store))) 1 ''tok2'' 7
                    (2000000000 + session_timeout)]\<rparr>,
            Some \<lparr>ui_user_id = 1, ui_username = ''alice'', ui_email = ''alice@x.com'',
                  ui_role = VIEWER, ui_session_token = Some ''tok2'',
                  ui_permissions = permissionsFor VIEWER\<rparr>, [])"
    by (simp add: authenticate_def find_user_defs is_locked_def example_defs)
  have f: "find_user (example_store
              \<lparr>users := map (record_success 1 7) (users example_store),
               sessions := sessions example_store @
                 [new_session (next_id (map id_s (sessions example_store))) 1 ''tok2'' 7
                    (2000000000 + session_timeout)]\<rparr>) ''carol'' = Some carol"
    by (simp add: find_user_defs record_success_def example_defs)
  have c: "locked_until carol = Some 1800000000"
    by (simp add: example_users)
  from a f c find_carol example_store_reachable show ?thesis
    by simp
qed

end
